theory Spec2Isabelle
  imports Main "HOL-Library.Extended_Nat" "HOL-Library.Multiset"
begin

section \<open>Configuration (src/config/constants.js)\<close>

text \<open>
  The numeric settings of \<open>CONFIG\<close>. Each is read as \<open>parseInt(env) || default\<close>;
  the model keeps them as natural numbers, with the defaults of the source collected in
  \<open>default_config\<close>.
\<close>

record config =
  MAX_SESSIONS_PER_SERVER :: nat
  REQUEST_TIMEOUT :: nat
  HEALTH_CHECK_INTERVAL :: nat
  SESSION_CACHE_TTL :: nat
  MAX_RETRIES :: nat
  RETRY_DELAY :: nat

definition default_config :: config where
  "default_config =
     \<lparr>MAX_SESSIONS_PER_SERVER = 25, REQUEST_TIMEOUT = 5000, HEALTH_CHECK_INTERVAL = 10000,
      SESSION_CACHE_TTL = 5000, MAX_RETRIES = 3, RETRY_DELAY = 1000\<rparr>"

text \<open>
  A status is a string. \<open>CONFIG.STATUS\<close> names three of them; \<open>updateServerStatus\<close> takes any
  string as the new status and compares it with these constants.
\<close>

type_synonym status = string

definition HEALTHY :: status where "HEALTHY = ''healthy''"
definition UNHEALTHY :: status where "UNHEALTHY = ''unhealthy''"
definition FULL :: status where "FULL = ''full''"

definition known_status :: "status \<Rightarrow> bool" where
  "known_status x = (x = HEALTHY \<or> x = UNHEALTHY \<or> x = FULL)"

section \<open>Data model (src/services/serverManager.js)\<close>

text \<open>
  A clock reading: \<open>Date.now()\<close> in milliseconds and the string that
  \<open>new Date().toISOString()\<close> renders at the same instant.
\<close>

record clock =
  now_ms :: nat
  iso :: string

text \<open>
  One element of the \<open>sessions\<close> array a backend lists. The gateway reads the fields
  \<open>id\<close> and \<open>sessionId\<close> only; \<open>None\<close> is an absent field.
\<close>

record session_obj =
  sess_id :: "string option"
  sessionId :: "string option"

record metadata =
  createdAt :: string
  healthChecks :: nat
  failures :: nat
  deletedSessions :: nat

text \<open>
  A server object of the registry. The fields \<open>error\<close> and \<open>sessionsList\<close> are not set
  by \<open>initializeServers\<close>; they appear on the object when \<open>Object.assign\<close> copies them from
  the data of a status update. An element of \<open>sessions\<close> is the value of
  \<open>s.id || s.sessionId\<close>, which is undefined (\<open>None\<close>) when both fields are absent.
\<close>

record server =
  server_id :: string
  url :: string
  status :: status
  sessionCount :: nat
  lastChecked :: "string option"
  responseTime :: nat
  isActive :: bool
  sessions :: "string option list"
  metadata :: metadata
  error :: "string option"
  sessionsList :: "session_obj list option"

text \<open>
  The data argument of \<open>updateServerStatus\<close>, an object whose own keys \<open>Object.assign\<close>
  copies onto the server object: one optional entry for each field of the server object
  that an update can write (\<open>None\<close> is an absent key). The callers pass \<open>sessionCount\<close>,
  \<open>responseTime\<close>, \<open>error\<close>, \<open>lastChecked\<close> and \<open>sessionsList\<close>; the function itself takes
  any object, so the data may as well carry \<open>sessions\<close>, \<open>status\<close>, \<open>isActive\<close> or
  \<open>metadata\<close>. The keys \<open>id\<close> and \<open>url\<close>, which name the object, are not part of the model.
\<close>

record patch =
  p_sessionCount :: "nat option"
  p_responseTime :: "nat option"
  p_error :: "string option"
  p_lastChecked :: "string option"
  p_sessionsList :: "session_obj list option"
  p_sessions :: "string option list option"
  p_status :: "status option"
  p_isActive :: "bool option"
  p_metadata :: "metadata option"

definition no_patch :: patch where
  "no_patch = \<lparr>p_sessionCount = None, p_responseTime = None, p_error = None,
     p_lastChecked = None, p_sessionsList = None, p_sessions = None,
     p_status = None, p_isActive = None, p_metadata = None\<rparr>"

text \<open>A patch that carries neither a \<open>status\<close> nor an \<open>isActive\<close> key, as every caller's does.\<close>

definition plain_patch :: "patch \<Rightarrow> bool" where
  "plain_patch d = (p_status d = None \<and> p_isActive d = None)"

text \<open>Outbound HTTP calls, recorded in the order they are issued.\<close>

datatype http_call = Probe string | Forward string | Logout string

text \<open>
  The shared state: the registry \<open>ServerManager.servers\<close> (a \<open>Map\<close>, kept in insertion
  order), the session index \<open>ServerManager.sessionMap\<close>, the store of the cache singleton
  (key to value and expiry), the cursor \<open>LoadBalancer.roundRobinIndex\<close>, and the
  outbound calls issued so far.
\<close>

record state =
  servers :: "server list"
  sessionMap :: "string \<rightharpoonup> string"
  cache :: "string \<rightharpoonup> (nat \<times> nat)"
  roundRobinIndex :: nat
  trace :: "http_call list"

section \<open>The cache (utils/cache.js)\<close>

definition cache_set :: "string \<Rightarrow> nat \<Rightarrow> nat \<Rightarrow> clock \<Rightarrow> state \<Rightarrow> state" where
  "cache_set key v ttl clk st = st\<lparr>cache := (cache st)(key \<mapsto> (v, now_ms clk + ttl))\<rparr>"

text \<open>\<open>get\<close> returns \<open>null\<close> (\<open>None\<close>) for a missing entry and for an expired one, which it deletes.\<close>

definition cache_get :: "string \<Rightarrow> clock \<Rightarrow> state \<Rightarrow> nat option \<times> state" where
  "cache_get key clk st =
     (case cache st key of
        None \<Rightarrow> (None, st)
      | Some (v, expiry) \<Rightarrow>
          if now_ms clk > expiry then (None, st\<lparr>cache := (cache st)(key := None)\<rparr>)
          else (Some v, st))"

definition cache_delete :: "string \<Rightarrow> state \<Rightarrow> state" where
  "cache_delete key st = st\<lparr>cache := (cache st)(key := None)\<rparr>"

definition cacheKey :: "string \<Rightarrow> string" where
  "cacheKey serverId = ''sessions_'' @ serverId"

section \<open>The server registry\<close>

text \<open>\<open>initializeServers\<close>: one server per configured URL, with id \<open>server-<index + 1>\<close>.\<close>

definition digits :: string where
  "digits = ''0123456789''"

fun decimal :: "nat \<Rightarrow> string" where
  "decimal n = (if n < 10 then [digits ! n] else decimal (n div 10) @ [digits ! (n mod 10)])"

declare decimal.simps [simp del]

definition new_server :: "clock \<Rightarrow> string \<Rightarrow> nat \<Rightarrow> server" where
  "new_server clk u index =
     \<lparr>server_id = ''server-'' @ decimal (index + 1), url = u, status = HEALTHY,
      sessionCount = 0, lastChecked = None, responseTime = 0, isActive = True,
      sessions = [],
      metadata = \<lparr>createdAt = iso clk, healthChecks = 0, failures = 0, deletedSessions = 0\<rparr>,
      error = None, sessionsList = None\<rparr>"

text \<open>\<open>Map.set\<close>: replace the value of an existing key in place, else append.\<close>

fun map_set :: "server \<Rightarrow> server list \<Rightarrow> server list" where
  "map_set v [] = [v]"
| "map_set v (s # ss) = (if server_id s = server_id v then v # ss else s # map_set v ss)"

fun initLoop :: "clock \<Rightarrow> string list \<Rightarrow> nat \<Rightarrow> server list \<Rightarrow> server list" where
  "initLoop clk [] index reg = reg"
| "initLoop clk (u # us) index reg = initLoop clk us (index + 1) (map_set (new_server clk u index) reg)"

definition initializeServers :: "clock \<Rightarrow> string list \<Rightarrow> state" where
  "initializeServers clk urls =
     \<lparr>servers = initLoop clk urls 0 [], sessionMap = Map.empty, cache = Map.empty,
      roundRobinIndex = 0, trace = []\<rparr>"

definition getAllServers :: "state \<Rightarrow> server list" where
  "getAllServers st = servers st"

definition getActiveServers :: "state \<Rightarrow> server list" where
  "getActiveServers st = filter (\<lambda>s. status s = HEALTHY \<and> isActive s) (getAllServers st)"

definition getServer :: "state \<Rightarrow> string \<Rightarrow> server option" where
  "getServer st serverId = find (\<lambda>s. server_id s = serverId) (servers st)"

text \<open>
  A server object is shared by reference: a write to a field of the object found under
  an id is a write to the registry entry of that id.
\<close>

fun modify_entry :: "string \<Rightarrow> (server \<Rightarrow> server) \<Rightarrow> server list \<Rightarrow> server list" where
  "modify_entry serverId f [] = []"
| "modify_entry serverId f (s # ss) =
     (if server_id s = serverId then f s # ss else s # modify_entry serverId f ss)"

definition modify_server :: "string \<Rightarrow> (server \<Rightarrow> server) \<Rightarrow> state \<Rightarrow> state" where
  "modify_server serverId f st = st\<lparr>servers := modify_entry serverId f (servers st)\<rparr>"

text \<open>
  \<open>Object.assign(server, data)\<close>: every key present in the data overwrites the field, also
  a field that \<open>updateServerStatus\<close> has just written.
\<close>

definition assign_patch :: "patch \<Rightarrow> server \<Rightarrow> server" where
  "assign_patch d s =
     s\<lparr>sessionCount := (case p_sessionCount d of None \<Rightarrow> sessionCount s | Some v \<Rightarrow> v),
       responseTime := (case p_responseTime d of None \<Rightarrow> responseTime s | Some v \<Rightarrow> v),
       error := (case p_error d of None \<Rightarrow> error s | Some v \<Rightarrow> Some v),
       lastChecked := (case p_lastChecked d of None \<Rightarrow> lastChecked s | Some v \<Rightarrow> Some v),
       sessionsList := (case p_sessionsList d of None \<Rightarrow> sessionsList s | Some v \<Rightarrow> Some v),
       sessions := (case p_sessions d of None \<Rightarrow> sessions s | Some v \<Rightarrow> v),
       status := (case p_status d of None \<Rightarrow> status s | Some v \<Rightarrow> v),
       isActive := (case p_isActive d of None \<Rightarrow> isActive s | Some v \<Rightarrow> v),
       metadata := (case p_metadata d of None \<Rightarrow> metadata s | Some v \<Rightarrow> v)\<rparr>"

text \<open>The writes of \<open>updateServerStatus\<close> to the server object, in the order of the source.\<close>

definition status_writes :: "clock \<Rightarrow> status \<Rightarrow> patch \<Rightarrow> server \<Rightarrow> server" where
  "status_writes clk newStatus d s =
     (let s1 = s\<lparr>status := newStatus, lastChecked := Some (iso clk),
                 metadata := (metadata s)\<lparr>healthChecks := healthChecks (metadata s) + 1\<rparr>\<rparr>;
          s2 = (if newStatus = UNHEALTHY
                then s1\<lparr>metadata := (metadata s1)\<lparr>failures := failures (metadata s1) + 1\<rparr>,
                        isActive := False\<rparr>
                else if newStatus = FULL then s1\<lparr>isActive := False\<rparr>
                else s1\<lparr>isActive := True\<rparr>)
      in assign_patch d s2)"

definition updateServerStatus :: "clock \<Rightarrow> string \<Rightarrow> status \<Rightarrow> patch \<Rightarrow> state \<Rightarrow> state" where
  "updateServerStatus clk serverId newStatus d st =
     (case getServer st serverId of
        None \<Rightarrow> st
      | Some server \<Rightarrow>
          cache_delete (cacheKey serverId)
            (modify_server serverId (status_writes clk newStatus d) st))"

definition resetServer :: "string \<Rightarrow> state \<Rightarrow> state" where
  "resetServer serverId st =
     (case getServer st serverId of
        None \<Rightarrow> st
      | Some server \<Rightarrow> modify_server serverId (\<lambda>s. s\<lparr>status := HEALTHY, isActive := True\<rparr>) st)"


text \<open>
  The current value of a server object: the registry entry under its id. An object that
  is not in the registry is written by nobody.
\<close>

definition live :: "state \<Rightarrow> server \<Rightarrow> server" where
  "live st s = (case getServer st (server_id s) of None \<Rightarrow> s | Some s' \<Rightarrow> s')"

section \<open>The HTTP client\<close>

text \<open>
  What the network gives for one request: an HTTP answer (status, parsed body, and the
  \<open>duration\<close> property when one is attached to the response) or no answer, with the
  \<open>code\<close> and \<open>message\<close> of the failure.
\<close>

datatype 'b raw_reply = Answer nat 'b "nat option" | NoAnswer "string option" string

record 'b response =
  r_status :: nat
  r_data :: 'b
  r_duration :: "nat option"

text \<open>A rejected request: \<open>error.code\<close>, \<open>error.message\<close>, \<open>error.response\<close>.\<close>

record 'b js_error =
  e_code :: "string option"
  e_message :: string
  e_response :: "'b response option"

definition plain_error :: "string \<Rightarrow> 'b js_error" where
  "plain_error msg = \<lparr>e_code = None, e_message = msg, e_response = None\<rparr>"

text \<open>
  The client resolves with the response when \<open>validateStatus\<close> accepts the status and rejects
  otherwise, with the response attached to the error and a code that depends on the
  status class. A request without an answer rejects with the code of the failure.
\<close>

definition status_code :: "nat \<Rightarrow> string option" where
  "status_code st =
     (if 400 \<le> st \<and> st < 500 then Some ''ERR_BAD_REQUEST''
      else if 500 \<le> st \<and> st < 600 then Some ''ERR_BAD_RESPONSE'' else None)"

definition axios :: "(nat \<Rightarrow> bool) \<Rightarrow> 'b raw_reply \<Rightarrow> 'b js_error + 'b response" where
  "axios validateStatus raw =
     (case raw of
        Answer st d dur \<Rightarrow>
          (let resp = \<lparr>r_status = st, r_data = d, r_duration = dur\<rparr>
           in if validateStatus st then Inr resp
              else Inl \<lparr>e_code = status_code st,
                        e_message = ''Request failed with status code '' @ decimal st,
                        e_response = Some resp\<rparr>)
      | NoAnswer c msg \<Rightarrow> Inl \<lparr>e_code = c, e_message = msg, e_response = None\<rparr>)"

definition default_validate :: "nat \<Rightarrow> bool" where
  "default_validate st = (200 \<le> st \<and> st < 300)"

text \<open>
  The body of a \<open>/sessions\<close> answer, as far as the gateway reads it: the value of
  \<open>response.data?.sessions\<close>, \<open>None\<close> when it is absent.
\<close>

type_synonym probe_net = "string \<Rightarrow> (session_obj list option) raw_reply"

definition or_empty :: "session_obj list option \<Rightarrow> session_obj list" where
  "or_empty v = (case v of None \<Rightarrow> [] | Some l \<Rightarrow> l)"

definition or_zero :: "nat option \<Rightarrow> nat" where
  "or_zero v = (case v of None \<Rightarrow> 0 | Some n \<Rightarrow> n)"

text \<open>\<open>s.id || s.sessionId\<close>: the empty string is falsy.\<close>

definition id_or_sessionId :: "session_obj \<Rightarrow> string option" where
  "id_or_sessionId s =
     (case sess_id s of
        None \<Rightarrow> sessionId s
      | Some i \<Rightarrow> if i \<noteq> [] then Some i else sessionId s)"

definition issue :: "http_call \<Rightarrow> state \<Rightarrow> state" where
  "issue c st = st\<lparr>trace := trace st @ [c]\<rparr>"

section \<open>Session counts, lookup and deletion (serverManager.js)\<close>

text \<open>The \<open>forEach\<close> of \<open>getServerSessionCount\<close> that fills the session index.\<close>

fun index_sessions :: "string \<Rightarrow> session_obj list \<Rightarrow> (string \<rightharpoonup> string) \<Rightarrow> (string \<rightharpoonup> string)" where
  "index_sessions serverId [] m = m"
| "index_sessions serverId (s # ss) m =
     index_sessions serverId ss
       (case id_or_sessionId s of
          None \<Rightarrow> m
        | Some i \<Rightarrow> if i \<noteq> [] then m(i \<mapsto> serverId) else m)"

definition getServerSessionCount ::
  "config \<Rightarrow> probe_net \<Rightarrow> clock \<Rightarrow> string \<Rightarrow> state
     \<Rightarrow> ((session_obj list option) js_error + nat) \<times> state" where
  "getServerSessionCount cfg net clk serverId st =
     (case cache_get (cacheKey serverId) clk st of
        (Some cached, st1) \<Rightarrow> (Inr cached, st1)
      | (None, st1) \<Rightarrow>
          (case getServer st1 serverId of
             None \<Rightarrow> (Inl (plain_error (''Server '' @ serverId @ '' not found'')), st1)
           | Some server \<Rightarrow>
               (let target = url server @ ''/sessions'';
                    st2 = issue (Probe target) st1
                in case axios default_validate (net target) of
                     Inr resp \<Rightarrow>
                       (let ss = or_empty (r_data resp);
                            count = length ss;
                            st3 = modify_server serverId
                                    (\<lambda>s. s\<lparr>sessions := map id_or_sessionId ss\<rparr>) st2;
                            st4 = st3\<lparr>sessionMap := index_sessions serverId ss (sessionMap st3)\<rparr>;
                            st5 = cache_set (cacheKey serverId) count (SESSION_CACHE_TTL cfg) clk st4;
                            st6 = updateServerStatus clk serverId (status (live st5 server))
                                    (no_patch\<lparr>p_sessionCount := Some count,
                                              p_responseTime := Some (or_zero (r_duration resp))\<rparr>)
                                    st5
                        in (Inr count, st6))
                   | Inl err \<Rightarrow>
                       (let st3 = (if e_code err = Some ''ECONNREFUSED'' \<or> e_code err = Some ''ETIMEDOUT''
                                   then updateServerStatus clk serverId UNHEALTHY
                                          (no_patch\<lparr>p_error := Some (e_message err)\<rparr>) st2
                                   else st2)
                        in (Inl err, st3)))))"

text \<open>
  The result of \<open>findSessionServer\<close>; \<open>None\<close> is \<open>null\<close>. \<open>fr_server\<close> is the server
  object as it is when the call returns.
\<close>

record find_result =
  fr_server :: server
  fr_cached :: bool
  fr_found :: bool
  fr_sessionDetails :: "session_obj option"

definition matches_session :: "string \<Rightarrow> session_obj \<Rightarrow> bool" where
  "matches_session sid s = (sess_id s = Some sid \<or> sessionId s = Some sid)"

text \<open>
  The \<open>for\<close> loop of \<open>findSessionServer\<close> over the array of server objects. A probe that
  rejects is caught and the loop continues with the next server.
\<close>

fun findLoop :: "probe_net \<Rightarrow> string \<Rightarrow> server list \<Rightarrow> state \<Rightarrow> find_result option \<times> state" where
  "findLoop net sid [] st = (None, st)"
| "findLoop net sid (server # rest) st =
     (if List.member (sessions (live st server)) (Some sid)
      then (let st1 = st\<lparr>sessionMap := (sessionMap st)(sid \<mapsto> server_id server)\<rparr>
            in (Some \<lparr>fr_server = live st1 server, fr_cached = True, fr_found = True,
                      fr_sessionDetails = None\<rparr>, st1))
      else (let target = url server @ ''/sessions'';
                st1 = issue (Probe target) st
            in case axios default_validate (net target) of
                 Inl err \<Rightarrow> findLoop net sid rest st1
               | Inr resp \<Rightarrow>
                   (let ss = or_empty (r_data resp);
                        st2 = modify_server (server_id server)
                                (\<lambda>s. s\<lparr>sessions := map id_or_sessionId ss\<rparr>) st1
                    in if list_ex (matches_session sid) ss
                       then (let st3 = st2\<lparr>sessionMap := (sessionMap st2)(sid \<mapsto> server_id server)\<rparr>
                             in (Some \<lparr>fr_server = live st3 server, fr_cached = False,
                                       fr_found = True,
                                       fr_sessionDetails = find (matches_session sid) ss\<rparr>, st3))
                       else findLoop net sid rest st2)))"

text \<open>The index hint of the first stage: a truthy entry that names a known server.\<close>

definition index_hint :: "state \<Rightarrow> string \<Rightarrow> server option" where
  "index_hint st sid =
     (case sessionMap st sid of
        None \<Rightarrow> None
      | Some cachedServerId \<Rightarrow> if cachedServerId \<noteq> [] then getServer st cachedServerId else None)"

definition findSessionServer :: "probe_net \<Rightarrow> string \<Rightarrow> state \<Rightarrow> find_result option \<times> state" where
  "findSessionServer net sid st =
     (case index_hint st sid of
        Some server \<Rightarrow>
          (Some \<lparr>fr_server = server, fr_cached = True, fr_found = True, fr_sessionDetails = None\<rparr>, st)
      | None \<Rightarrow> findLoop net sid (getAllServers st) st)"


text \<open>Parsed JSON bodies of the forwarded request and of the logout call.\<close>

datatype json =
  JNull | JBool bool | JNum int | JStr string | JArr "json list" | JObj "(string \<times> json) list"

text \<open>JavaScript truthiness of a parsed value, and of a property that may be absent.\<close>

fun truthy :: "json \<Rightarrow> bool" where
  "truthy JNull = False"
| "truthy (JBool b) = b"
| "truthy (JNum n) = (n \<noteq> 0)"
| "truthy (JStr s) = (s \<noteq> [])"
| "truthy (JArr xs) = True"
| "truthy (JObj fs) = True"

fun get_prop :: "json \<Rightarrow> string \<Rightarrow> json option" where
  "get_prop (JObj fs) k = map_of fs k"
| "get_prop v k = None"

definition truthy_prop :: "json \<Rightarrow> string \<Rightarrow> bool" where
  "truthy_prop v k = (case get_prop v k of None \<Rightarrow> False | Some x \<Rightarrow> truthy x)"

text \<open>The result object of a successful \<open>deleteSessionFromServer\<close>.\<close>

record delete_result =
  dr_success :: bool
  dr_serverId :: string
  dr_sessionId :: string
  dr_response :: json
  dr_newSessionCount :: nat

type_synonym json_net = "string \<Rightarrow> json raw_reply"

definition local_cleanup :: "string \<Rightarrow> string \<Rightarrow> state \<Rightarrow> state" where
  "local_cleanup serverId sid st =
     modify_server serverId (\<lambda>s. s\<lparr>sessions := filter (\<lambda>x. x \<noteq> Some sid) (sessions s)\<rparr>)
       (st\<lparr>sessionMap := (sessionMap st)(sid := None)\<rparr>)"

definition deleteSessionFromServer ::
  "json_net \<Rightarrow> string \<Rightarrow> string \<Rightarrow> state \<Rightarrow> (json js_error + delete_result) \<times> state" where
  "deleteSessionFromServer net serverId sid st =
     (case getServer st serverId of
        None \<Rightarrow> (Inl (plain_error (''Server '' @ serverId @ '' not found'')), st)
      | Some server \<Rightarrow>
          (let target = url server @ ''/logout/'' @ sid;
               st1 = issue (Logout target) st
           in case axios default_validate (net target) of
                Inr resp \<Rightarrow>
                  (let st2 = modify_server serverId
                               (\<lambda>s. s\<lparr>metadata := (metadata s)
                                      \<lparr>deletedSessions := deletedSessions (metadata s) + 1\<rparr>\<rparr>) st1;
                       st3 = local_cleanup serverId sid st2;
                       st4 = modify_server serverId
                               (\<lambda>s. if sessionCount s > 0
                                    then s\<lparr>sessionCount := sessionCount s - 1\<rparr> else s) st3;
                       st5 = cache_delete (cacheKey serverId) st4
                   in (Inr \<lparr>dr_success = True, dr_serverId = server_id (live st5 server),
                             dr_sessionId = sid, dr_response = r_data resp,
                             dr_newSessionCount = sessionCount (live st5 server)\<rparr>, st5))
              | Inl err \<Rightarrow>
                  (let st2 = (case e_response err of
                                None \<Rightarrow> st1
                              | Some r \<Rightarrow> if r_status r = 404 then local_cleanup serverId sid st1
                                          else st1)
                   in (Inl err, st2))))"

section \<open>The health monitor (src/services/healthMonitor.js)\<close>

text \<open>
  \<open>checkServerHealth\<close>: a status other than 200 is thrown as \<open>HTTP <status>\<close> inside the
  \<open>try\<close> block and handled like a rejected request.
\<close>

definition checkServerHealth :: "config \<Rightarrow> probe_net \<Rightarrow> clock \<Rightarrow> server \<Rightarrow> state \<Rightarrow> state" where
  "checkServerHealth cfg net clk server st =
     (let target = url server @ ''/sessions'';
          st1 = issue (Probe target) st;
          outcome = (case axios default_validate (net target) of
                       Inl err \<Rightarrow> Inl (e_message err)
                     | Inr resp \<Rightarrow> if r_status resp = 200 then Inr resp
                                   else Inl (''HTTP '' @ decimal (r_status resp)))
      in case outcome of
           Inr resp \<Rightarrow>
             (let ss = or_empty (r_data resp);
                  count = length ss;
                  newStatus = (if count \<ge> MAX_SESSIONS_PER_SERVER cfg then FULL else HEALTHY)
              in updateServerStatus clk (server_id server) newStatus
                   (no_patch\<lparr>p_sessionCount := Some count, p_lastChecked := Some (iso clk),
                             p_responseTime := Some (or_zero (r_duration resp)),
                             p_sessionsList := Some ss\<rparr>) st1)
         | Inl msg \<Rightarrow>
             updateServerStatus clk (server_id server) UNHEALTHY
               (no_patch\<lparr>p_error := Some msg, p_lastChecked := Some (iso clk)\<rparr>) st1)"

text \<open>\<open>performHealthChecks\<close> starts one check per server; the model runs them in registry order.\<close>

fun healthLoop :: "config \<Rightarrow> probe_net \<Rightarrow> clock \<Rightarrow> server list \<Rightarrow> state \<Rightarrow> state" where
  "healthLoop cfg net clk [] st = st"
| "healthLoop cfg net clk (s # rest) st = healthLoop cfg net clk rest (checkServerHealth cfg net clk s st)"

definition performHealthChecks :: "config \<Rightarrow> probe_net \<Rightarrow> clock \<Rightarrow> state \<Rightarrow> state" where
  "performHealthChecks cfg net clk st = healthLoop cfg net clk (getAllServers st) st"

definition checkServer ::
  "config \<Rightarrow> probe_net \<Rightarrow> clock \<Rightarrow> string \<Rightarrow> state \<Rightarrow> (string + server option) \<times> state" where
  "checkServer cfg net clk serverId st =
     (case getServer st serverId of
        None \<Rightarrow> (Inl (''Server '' @ serverId @ '' not found''), st)
      | Some server \<Rightarrow>
          (let st1 = checkServerHealth cfg net clk server st in (Inr (getServer st1 serverId), st1)))"

section \<open>The load balancer (the variant with the trailing-slash rewrite)\<close>

datatype select_error = ALL_FULL | ALL_UNAVAILABLE | NO_ACTIVE_SERVERS | TypeError

text \<open>
  The session counts of the active servers. \<open>Promise.all\<close> starts one
  \<open>getServerSessionCount\<close> per server; the model runs them in the order of the array. A
  rejected count is \<open>Infinity\<close>.
\<close>

fun countLoop ::
  "config \<Rightarrow> probe_net \<Rightarrow> clock \<Rightarrow> server list \<Rightarrow> state \<Rightarrow> (server \<times> enat) list \<times> state" where
  "countLoop cfg net clk [] st = ([], st)"
| "countLoop cfg net clk (server # rest) st =
     (case getServerSessionCount cfg net clk (server_id server) st of
        (r, st1) \<Rightarrow>
          (case countLoop cfg net clk rest st1 of
             (xs, st2) \<Rightarrow>
               ((server, (case r of Inr c \<Rightarrow> enat c | Inl err \<Rightarrow> \<infinity>)) # xs, st2)))"

text \<open>\<open>Math.min(...xs)\<close>, which is \<open>Infinity\<close> for no arguments.\<close>

definition math_min :: "enat list \<Rightarrow> enat" where
  "math_min xs = fold min xs \<infinity>"

definition selectOptimalServer ::
  "config \<Rightarrow> probe_net \<Rightarrow> clock \<Rightarrow> state \<Rightarrow> (select_error + server) \<times> state" where
  "selectOptimalServer cfg net clk st =
     (let activeServers = getActiveServers st
      in if length activeServers = 0
         then (let allServers = getAllServers st;
                   fullServers = filter (\<lambda>s. status s = FULL) allServers;
                   unhealthyServers = filter (\<lambda>s. status s = UNHEALTHY) allServers
               in if length fullServers = length allServers \<and> length allServers > 0
                  then (Inl ALL_FULL, st)
                  else if length unhealthyServers = length allServers \<and> length allServers > 0
                  then (Inl ALL_UNAVAILABLE, st)
                  else (Inl NO_ACTIVE_SERVERS, st))
         else (case countLoop cfg net clk activeServers st of
                 (serversWithSessions, st1) \<Rightarrow>
                   (let availableServers =
                          filter (\<lambda>x. snd x < enat (MAX_SESSIONS_PER_SERVER cfg)) serversWithSessions
                    in if length availableServers = 0 then (Inl ALL_FULL, st1)
                       else (let minSessions = math_min (map snd availableServers);
                                 leastLoadedServers =
                                   filter (\<lambda>x. snd x = minSessions) availableServers
                             in if length leastLoadedServers > 1
                                then (let i = (roundRobinIndex st1 + 1) mod length leastLoadedServers;
                                          st2 = st1\<lparr>roundRobinIndex := i\<rparr>
                                      in (Inr (live st2 (fst (leastLoadedServers ! i))), st2))
                                else (case leastLoadedServers of
                                        [] \<Rightarrow> (Inl TypeError, st1)
                                      | x # xs \<Rightarrow> (Inr (live st1 (fst x)), st1))))))"


text \<open>The inbound request, as far as \<open>forwardRequest\<close> reads it, and the client configuration.\<close>

record request =
  req_method :: string
  originalUrl :: string
  req_body :: "json option"
  req_headers :: "(string \<times> string) list"
  req_ip :: string

record axios_config =
  c_method :: string
  c_url :: string
  c_headers :: "(string \<times> string) list"
  c_timeout :: nat
  c_data :: "json option"

text \<open>What \<open>forwardRequest\<close> returns: the data and the status of the upstream response.\<close>

record fwd_response =
  f_data :: json
  f_status :: nat

text \<open>
  The world as one attempt sees it: the clock, the answers to \<open>/sessions\<close> probes and the
  answers to forwarded requests.
\<close>

record world =
  w_clock :: clock
  w_net :: probe_net
  w_fwd :: "axios_config \<Rightarrow> json raw_reply"

text \<open>Setting a property of an object literal: an existing key keeps its place.\<close>

fun obj_set :: "string \<Rightarrow> 'v \<Rightarrow> (string \<times> 'v) list \<Rightarrow> (string \<times> 'v) list" where
  "obj_set k v [] = [(k, v)]"
| "obj_set k v (x # xs) = (if fst x = k then (k, v) # xs else x # obj_set k v xs)"

text \<open>The test \<open>/^\/pair\/[^\/]+$/\<close> on the original URL.\<close>

definition matches_pair :: "string \<Rightarrow> bool" where
  "matches_pair u =
     (take 6 u = ''/pair/'' \<and> drop 6 u \<noteq> [] \<and> \<not> List.member (drop 6 u) (CHR ''/''))"

text \<open>\<open>Object.keys(body).length > 0\<close> for a truthy body.\<close>

fun has_keys :: "json \<Rightarrow> bool" where
  "has_keys (JObj fs) = (fs \<noteq> [])"
| "has_keys (JArr xs) = (xs \<noteq> [])"
| "has_keys (JStr s) = (s \<noteq> [])"
| "has_keys v = False"

definition forward_config :: "config \<Rightarrow> clock \<Rightarrow> request \<Rightarrow> server \<Rightarrow> axios_config" where
  "forward_config cfg clk req server =
     (let path = (if matches_pair (originalUrl req) then originalUrl req @ ''/''
                  else originalUrl req);
          targetUrl = url server @ path;
          c = \<lparr>c_method = req_method req, c_url = targetUrl,
               c_headers = obj_set ''accept'' ''application/json''
                            (obj_set ''user-agent'' ''Smart-Gateway-Proxy/1.0''
                              (obj_set ''x-proxy-timestamp'' (iso clk)
                                (obj_set ''x-proxy-server'' (server_id server)
                                  (obj_set ''x-forwarded-for'' (req_ip req) (req_headers req))))),
               c_timeout = REQUEST_TIMEOUT cfg, c_data = None\<rparr>
      in case req_body req of
           None \<Rightarrow> c
         | Some b \<Rightarrow>
             if truthy b \<and> has_keys b
             then c\<lparr>c_data := Some b,
                    c_headers := obj_set ''content-type'' ''application/json'' (c_headers c)\<rparr>
             else c)"

definition accept_all :: "nat \<Rightarrow> bool" where
  "accept_all st = (200 \<le> st \<and> st < 600)"

definition marks_unhealthy :: "string option \<Rightarrow> bool" where
  "marks_unhealthy c =
     (c = Some ''ECONNREFUSED'' \<or> c = Some ''ETIMEDOUT'' \<or> c = Some ''ECONNABORTED'')"

text \<open>
  \<open>forwardRequest(req, server, retries)\<close>. The worlds are indexed by the attempt: the
  delay before a retry is time that passes between two of them. A failed re-selection
  throws the original error; the result of the recursive call is returned as it is.
\<close>

function forwardRequest ::
  "config \<Rightarrow> (nat \<Rightarrow> world) \<Rightarrow> request \<Rightarrow> server \<Rightarrow> nat \<Rightarrow> state
     \<Rightarrow> (json js_error + fwd_response) \<times> state" where
  "forwardRequest cfg ws req server retries st =
     (let c = forward_config cfg (w_clock (ws retries)) req server;
          st1 = issue (Forward (c_url c)) st
      in case axios accept_all (w_fwd (ws retries) c) of
           Inr resp \<Rightarrow> (Inr \<lparr>f_data = r_data resp, f_status = r_status resp\<rparr>, st1)
         | Inl err \<Rightarrow>
             (let st2 = (if marks_unhealthy (e_code err)
                         then updateServerStatus (w_clock (ws retries)) (server_id server) UNHEALTHY
                                (no_patch\<lparr>p_error := Some (e_message err)\<rparr>) st1
                         else st1)
              in if retries < MAX_RETRIES cfg
                 then (case selectOptimalServer cfg (w_net (ws (retries + 1)))
                              (w_clock (ws (retries + 1))) st2 of
                         (Inr newServer, st3) \<Rightarrow>
                           forwardRequest cfg ws req newServer (retries + 1) st3
                       | (Inl selectionError, st3) \<Rightarrow> (Inl err, st3))
                 else (Inl err, st2)))"
  by pat_completeness auto
termination
  by (relation "measure (\<lambda>(cfg, ws, req, server, retries, st). MAX_RETRIES cfg - retries)") auto

declare forwardRequest.simps [simp del]

section \<open>The controller (src/controllers/apiController.js)\<close>

record reply =
  rep_status :: nat
  rep_body :: json

text \<open>\<open>createResponse(ok, data, error)\<close> of utils/helpers.js, with the timestamp it reads.\<close>

definition createResponse :: "bool \<Rightarrow> json \<Rightarrow> json \<Rightarrow> string \<Rightarrow> json" where
  "createResponse ok d err ts =
     JObj ([(''ok'', JBool ok), (''timestamp'', JStr ts)]
           @ (if truthy d then [(''data'', d)] else [])
           @ (if truthy err then [(''error'', err)] else []))"

definition selection_message :: "config \<Rightarrow> select_error \<Rightarrow> string" where
  "selection_message cfg e =
     (case e of
        ALL_FULL \<Rightarrow> ''All API servers are full ('' @ decimal (MAX_SESSIONS_PER_SERVER cfg) @ ''/''
                      @ decimal (MAX_SESSIONS_PER_SERVER cfg) @ '')''
      | ALL_UNAVAILABLE \<Rightarrow> ''All backend servers are unavailable''
      | NO_ACTIVE_SERVERS \<Rightarrow> ''No active backend servers available''
      | TypeError \<Rightarrow> ''Service unavailable'')"

text \<open>
  \<open>data.sessionId || data.cleanNumber\<close>, when it is truthy. The session index of the model
  is keyed by strings, as every lookup, deletion and probe of the source keys it (by a
  session id). A truthy value that is not a string would be entered by the source under a
  key that no such lookup compares equal to; the model, which has no operation that counts
  or lists the entries of the index, leaves that entry out.
\<close>

definition pair_session_id :: "json \<Rightarrow> string option" where
  "pair_session_id d =
     (case (if truthy_prop d ''sessionId'' then get_prop d ''sessionId''
            else get_prop d ''cleanNumber'') of
        Some (JStr s) \<Rightarrow> if s \<noteq> [] then Some s else None
      | _ \<Rightarrow> None)"

text \<open>
  The part of \<open>handlePair\<close> after the forwarded request has returned a response: the
  empty-body check, the check of the \<open>error\<close> property, the bookkeeping after a successful
  pairing (whose failure is logged only), and the reply.
\<close>

definition pair_bookkeeping :: "config \<Rightarrow> world \<Rightarrow> server \<Rightarrow> json \<Rightarrow> state \<Rightarrow> state" where
  "pair_bookkeeping cfg w selectedServer d st =
     (case getServerSessionCount cfg (w_net w) (w_clock w) (server_id selectedServer) st of
        (Inl updateError, st1) \<Rightarrow> st1
      | (Inr currentCount, st1) \<Rightarrow>
          (case pair_session_id d of
             None \<Rightarrow> st1
           | Some sid \<Rightarrow> st1\<lparr>sessionMap := (sessionMap st1)(sid \<mapsto> server_id selectedServer)\<rparr>))"

definition pair_respond ::
  "config \<Rightarrow> world \<Rightarrow> server \<Rightarrow> fwd_response \<Rightarrow> state \<Rightarrow> reply \<times> state" where
  "pair_respond cfg w selectedServer backendResponse st =
     (if \<not> truthy (f_data backendResponse)
      then (\<lparr>rep_status = 502,
             rep_body = createResponse False JNull (JStr ''Backend server returned empty response'')
                          (iso (w_clock w))\<rparr>, st)
      else (case (if truthy_prop (f_data backendResponse) ''error''
                  then get_prop (f_data backendResponse) ''error'' else None) of
              Some e \<Rightarrow>
                (\<lparr>rep_status = (if f_status backendResponse \<ge> 400 then f_status backendResponse
                                 else 400),
                  rep_body = createResponse False JNull e (iso (w_clock w))\<rparr>, st)
            | None \<Rightarrow>
                (let st1 = (if truthy_prop (f_data backendResponse) ''ok''
                            then pair_bookkeeping cfg w selectedServer (f_data backendResponse) st
                            else st)
                 in (\<lparr>rep_status = f_status backendResponse,
                       rep_body = f_data backendResponse\<rparr>, st1))))"

text \<open>
  \<open>handlePair\<close>: selection in the world \<open>w0\<close>, forwarding in the worlds \<open>ws\<close>, the rest in
  the world \<open>w1\<close>. The outer \<open>catch\<close> (reply 500) is for exceptions that none of these
  steps raises.
\<close>

definition handlePair ::
  "config \<Rightarrow> world \<Rightarrow> (nat \<Rightarrow> world) \<Rightarrow> world \<Rightarrow> request \<Rightarrow> state \<Rightarrow> reply \<times> state" where
  "handlePair cfg w0 ws w1 req st =
     (case selectOptimalServer cfg (w_net w0) (w_clock w0) st of
        (Inl selectionError, st1) \<Rightarrow>
          (\<lparr>rep_status = 503,
            rep_body = createResponse False JNull (JStr (selection_message cfg selectionError))
                         (iso (w_clock w0))\<rparr>, st1)
      | (Inr selectedServer, st1) \<Rightarrow>
          (case forwardRequest cfg ws req selectedServer 0 st1 of
             (Inl forwardError, st2) \<Rightarrow>
               (\<lparr>rep_status = 503,
                 rep_body = createResponse False JNull
                              (JStr (''Backend server unavailable: '' @ e_message forwardError))
                              (iso (w_clock w1))\<rparr>, st2)
           | (Inr backendResponse, st2) \<Rightarrow> pair_respond cfg w1 selectedServer backendResponse st2))"

text \<open>
  The reset endpoint \<open>ApiController.resetServer\<close>: the manager's \<open>resetServer\<close> has no
  \<open>throw\<close>, so the reply is the one of the \<open>try\<close> block (\<open>res.json\<close>, status 200).
\<close>

definition api_resetServer :: "string \<Rightarrow> state \<Rightarrow> reply \<times> state" where
  "api_resetServer serverId st =
     (let st1 = resetServer serverId st
      in (\<lparr>rep_status = 200,
            rep_body = JObj [(''ok'', JBool True),
                             (''message'', JStr (''Server '' @ serverId
                                                 @ '' has been reset to healthy status''))]\<rparr>, st1))"


section \<open>Reachable states\<close>

text \<open>
  The operations that write to the shared state, each with the part of the outside world
  it meets, and the states they reach from the initial registry.
\<close>

datatype operation =
    OpUpdateStatus clock string status patch
  | OpReset string
  | OpSessionCount probe_net clock string
  | OpDelete json_net string string
  | OpFind probe_net string
  | OpHealthCheck probe_net clock server
  | OpHealthSweep probe_net clock
  | OpSelect probe_net clock
  | OpForward "nat \<Rightarrow> world" request server
  | OpPair world "nat \<Rightarrow> world" world request

fun apply_op :: "config \<Rightarrow> state \<Rightarrow> operation \<Rightarrow> state" where
  "apply_op cfg st (OpUpdateStatus clk serverId newStatus d) = updateServerStatus clk serverId newStatus d st"
| "apply_op cfg st (OpReset serverId) = resetServer serverId st"
| "apply_op cfg st (OpSessionCount net clk serverId) = snd (getServerSessionCount cfg net clk serverId st)"
| "apply_op cfg st (OpDelete net serverId sid) = snd (deleteSessionFromServer net serverId sid st)"
| "apply_op cfg st (OpFind net sid) = snd (findSessionServer net sid st)"
| "apply_op cfg st (OpHealthCheck net clk server) = checkServerHealth cfg net clk server st"
| "apply_op cfg st (OpHealthSweep net clk) = performHealthChecks cfg net clk st"
| "apply_op cfg st (OpSelect net clk) = snd (selectOptimalServer cfg net clk st)"
| "apply_op cfg st (OpForward ws req server) = snd (forwardRequest cfg ws req server 0 st)"
| "apply_op cfg st (OpPair w0 ws w1 req) = snd (handlePair cfg w0 ws w1 req st)"

definition run :: "config \<Rightarrow> clock \<Rightarrow> string list \<Rightarrow> operation list \<Rightarrow> state" where
  "run cfg clk urls ops = foldl (apply_op cfg) (initializeServers clk urls) ops"

text \<open>
  The operations as the gateway performs them: a status update gives one of the three
  status constants, and its data carries neither a \<open>status\<close> nor an \<open>isActive\<close> key.
\<close>

fun keeps_flags :: "operation \<Rightarrow> bool" where
  "keeps_flags (OpUpdateStatus clk serverId newStatus d) = (known_status newStatus \<and> plain_patch d)"
| "keeps_flags op = True"

text \<open>The invariant of the data model: a server is active exactly when it is healthy.\<close>

definition active_iff_healthy :: "state \<Rightarrow> bool" where
  "active_iff_healthy st = list_all (\<lambda>s. isActive s = (status s = HEALTHY)) (servers st)"

text \<open>Every status in the registry is one of the three status constants.\<close>

definition known_statuses :: "state \<Rightarrow> bool" where
  "known_statuses st = list_all (\<lambda>s. known_status (status s)) (servers st)"

text \<open>The keys of the registry are distinct, as the keys of a \<open>Map\<close> are.\<close>

definition distinct_ids :: "state \<Rightarrow> bool" where
  "distinct_ids st = distinct (map server_id (servers st))"

text \<open>The number of forwarded requests among the outbound calls.\<close>

fun is_forward :: "http_call \<Rightarrow> bool" where
  "is_forward (Forward u) = True"
| "is_forward c = False"

definition forward_attempts :: "state \<Rightarrow> nat" where
  "forward_attempts st = length (filter is_forward (trace st))"

text \<open>\<open>k\<close> selections one after the other in an unchanging world; the servers returned.\<close>

fun select_times :: "config \<Rightarrow> probe_net \<Rightarrow> clock \<Rightarrow> nat \<Rightarrow> state \<Rightarrow> (select_error + server) list \<times> state" where
  "select_times cfg net clk 0 st = ([], st)"
| "select_times cfg net clk (Suc k) st =
     (case selectOptimalServer cfg net clk st of
        (r, st1) \<Rightarrow> (case select_times cfg net clk k st1 of (rs, st2) \<Rightarrow> (r # rs, st2)))"

section \<open>How a server object may change\<close>

text \<open>
  A server object whose status is one of the three constants and whose active flag agrees
  with it. Every write of the operations keeps the id and the URL of a server object, and
  leaves a server that is in this condition in it.
\<close>

definition consistent :: "server \<Rightarrow> bool" where
  "consistent s = (known_status (status s) \<and> isActive s = (status s = HEALTHY))"

definition evolves :: "server \<Rightarrow> server \<Rightarrow> bool" where
  "evolves s s' =
     (server_id s' = server_id s \<and> url s' = url s \<and> (consistent s \<longrightarrow> consistent s'))"

definition steps_to :: "state \<Rightarrow> state \<Rightarrow> bool" where
  "steps_to st st' = list_all2 evolves (servers st) (servers st')"

section \<open>Where a session is found\<close>

text \<open>
  A server holds the session in memory, or its \<open>/sessions\<close> endpoint lists it when it is
  probed; the servers that \<open>findSessionServer\<close> probes before it returns.
\<close>

definition memory_hit :: "string \<Rightarrow> server \<Rightarrow> bool" where
  "memory_hit sid s = List.member (sessions s) (Some sid)"

definition probe_hit :: "probe_net \<Rightarrow> string \<Rightarrow> server \<Rightarrow> bool" where
  "probe_hit net sid s =
     (case axios default_validate (net (url s @ ''/sessions'')) of
        Inl err \<Rightarrow> False
      | Inr resp \<Rightarrow> list_ex (matches_session sid) (or_empty (r_data resp)))"

definition hit :: "probe_net \<Rightarrow> string \<Rightarrow> server \<Rightarrow> bool" where
  "hit net sid s = (memory_hit sid s \<or> probe_hit net sid s)"

fun probed :: "probe_net \<Rightarrow> string \<Rightarrow> server list \<Rightarrow> server list" where
  "probed net sid [] = []"
| "probed net sid (s # rest) =
     (if memory_hit sid s then []
      else if probe_hit net sid s then [s]
      else s # probed net sid rest)"

definition probe_call :: "server \<Rightarrow> http_call" where
  "probe_call s = Probe (url s @ ''/sessions'')"

text \<open>
  The three stages as the specification words them, one after the other: the index, then
  the in-memory sessions of every server, then a probe of every server in turn.
\<close>

fun probeLoop :: "probe_net \<Rightarrow> string \<Rightarrow> server list \<Rightarrow> state \<Rightarrow> find_result option \<times> state" where
  "probeLoop net sid [] st = (None, st)"
| "probeLoop net sid (server # rest) st =
     (let st1 = issue (probe_call server) st
      in case axios default_validate (net (url server @ ''/sessions'')) of
           Inl err \<Rightarrow> probeLoop net sid rest st1
         | Inr resp \<Rightarrow>
             (let ss = or_empty (r_data resp);
                  st2 = modify_server (server_id server)
                          (\<lambda>s. s\<lparr>sessions := map id_or_sessionId ss\<rparr>) st1;
                  st3 = st2\<lparr>sessionMap := index_sessions (server_id server) ss (sessionMap st2)\<rparr>
              in if list_ex (matches_session sid) ss
                 then (Some \<lparr>fr_server = live st3 server, fr_cached = False, fr_found = True,
                           fr_sessionDetails = find (matches_session sid) ss\<rparr>, st3)
                 else probeLoop net sid rest st3))"

definition findSessionServer_staged ::
  "probe_net \<Rightarrow> string \<Rightarrow> state \<Rightarrow> find_result option \<times> state" where
  "findSessionServer_staged net sid st =
     (case index_hint st sid of
        Some server \<Rightarrow>
          (Some \<lparr>fr_server = server, fr_cached = True, fr_found = True, fr_sessionDetails = None\<rparr>, st)
      | None \<Rightarrow>
          (case find (memory_hit sid) (getAllServers st) of
             Some server \<Rightarrow>
               (let st1 = st\<lparr>sessionMap := (sessionMap st)(sid \<mapsto> server_id server)\<rparr>
                in (Some \<lparr>fr_server = live st1 server, fr_cached = True, fr_found = True,
                          fr_sessionDetails = None\<rparr>, st1))
           | None \<Rightarrow> probeLoop net sid (getAllServers st) st))"

section \<open>The session count of a server in a state\<close>

text \<open>
  What \<open>getServerSessionCount\<close> returns for a server in a given state, and the count the
  load balancer makes of it (\<open>Infinity\<close> for a rejected call).
\<close>

definition count_of ::
  "config \<Rightarrow> probe_net \<Rightarrow> clock \<Rightarrow> state \<Rightarrow> string \<Rightarrow> (session_obj list option) js_error + nat" where
  "count_of cfg net clk st serverId = fst (getServerSessionCount cfg net clk serverId st)"

definition as_count :: "(session_obj list option) js_error + nat \<Rightarrow> enat" where
  "as_count r = (case r of Inr c \<Rightarrow> enat c | Inl err \<Rightarrow> \<infinity>)"

text \<open>The part of the state that the returned count depends on.\<close>

definition count_view :: "state \<Rightarrow> string \<Rightarrow> (nat \<times> nat) option \<times> string option" where
  "count_view st serverId = (cache st (cacheKey serverId), map_option url (getServer st serverId))"

text \<open>A server that a selection can return: it is healthy and active, and its count is \<open>c\<close>.\<close>

definition selectable :: "config \<Rightarrow> probe_net \<Rightarrow> clock \<Rightarrow> state \<Rightarrow> string \<Rightarrow> nat \<Rightarrow> bool" where
  "selectable cfg net clk st serverId c =
     (count_of cfg net clk st serverId = Inr c
      \<and> (case getServer st serverId of
            None \<Rightarrow> False
          | Some s \<Rightarrow> status s = HEALTHY \<and> isActive s))"

text \<open>
  The lists a selection works with, read off the state it starts from: the active servers
  with their counts, those below the maximum, and the least loaded of these.
\<close>

definition counted :: "config \<Rightarrow> probe_net \<Rightarrow> clock \<Rightarrow> state \<Rightarrow> (server \<times> enat) list" where
  "counted cfg net clk st =
     map (\<lambda>s. (s, as_count (count_of cfg net clk st (server_id s)))) (getActiveServers st)"

definition available :: "config \<Rightarrow> probe_net \<Rightarrow> clock \<Rightarrow> state \<Rightarrow> (server \<times> enat) list" where
  "available cfg net clk st =
     filter (\<lambda>x. snd x < enat (MAX_SESSIONS_PER_SERVER cfg)) (counted cfg net clk st)"

definition least_loaded :: "config \<Rightarrow> probe_net \<Rightarrow> clock \<Rightarrow> state \<Rightarrow> (server \<times> enat) list" where
  "least_loaded cfg net clk st =
     filter (\<lambda>x. snd x = math_min (map snd (available cfg net clk st))) (available cfg net clk st)"

text \<open>
  The situation of the round-robin law: the active servers are those with the ids \<open>ids\<close>,
  and each of them can be selected with the same count \<open>c\<close>.
\<close>

definition uniform :: "config \<Rightarrow> probe_net \<Rightarrow> clock \<Rightarrow> nat \<Rightarrow> string list \<Rightarrow> state \<Rightarrow> bool" where
  "uniform cfg net clk c ids st =
     (distinct_ids st \<and> map server_id (getActiveServers st) = ids
      \<and> list_all (\<lambda>i. selectable cfg net clk st i c) ids)"

definition is_active :: "server \<Rightarrow> bool" where
  "is_active s = (status s = HEALTHY \<and> isActive s)"

definition healthy_ids :: "state \<Rightarrow> string list" where
  "healthy_ids st = map server_id (filter (\<lambda>s. status s = HEALTHY) (servers st))"

definition selected_ids :: "(select_error + server) list \<Rightarrow> (select_error + string) list" where
  "selected_ids rs = map (map_sum id server_id) rs"

section \<open>Concrete registries and worlds\<close>

definition ex_clock :: clock where
  "ex_clock = \<lparr>now_ms = 1000, iso = ''2024-01-01T00:00:01.000Z''\<rparr>"

definition ex_init :: state where
  "ex_init = initializeServers ex_clock [''http://a'', ''http://b'']"

definition ex_unhealthy :: state where
  "ex_unhealthy = updateServerStatus ex_clock ''server-1'' UNHEALTHY no_patch ex_init"

definition failures_of :: "state \<Rightarrow> string \<Rightarrow> nat option" where
  "failures_of st serverId = map_option (failures \<circ> metadata) (getServer st serverId)"

definition status_of :: "state \<Rightarrow> string \<Rightarrow> status option" where
  "status_of st serverId = map_option status (getServer st serverId)"

definition sessionCount_of :: "state \<Rightarrow> string \<Rightarrow> nat option" where
  "sessionCount_of st serverId = map_option sessionCount (getServer st serverId)"

definition sessions_of :: "state \<Rightarrow> string \<Rightarrow> string option list option" where
  "sessions_of st serverId = map_option sessions (getServer st serverId)"

definition deleted_of :: "state \<Rightarrow> string \<Rightarrow> nat option" where
  "deleted_of st serverId = map_option (deletedSessions \<circ> metadata) (getServer st serverId)"

text \<open>A world in which the backend at \<open>http://b\<close> lists one session and every other backend none.\<close>

definition ex_session :: session_obj where
  "ex_session = \<lparr>sess_id = Some ''sess-abc'', sessionId = None\<rparr>"

definition ex_net :: probe_net where
  "ex_net u = (if u = ''http://b/sessions'' then Answer 200 (Some [ex_session]) None
               else Answer 200 (Some []) None)"

text \<open>The registry after the session count of the second server has been refreshed there.\<close>

definition ex_counted :: state where
  "ex_counted = snd (getServerSessionCount default_config ex_net ex_clock ''server-2'' ex_init)"

text \<open>Logout answers: a success, and the 404 of a backend that does not know the session.\<close>

definition ex_logout_ok :: json_net where
  "ex_logout_ok u = Answer 200 (JObj [(''ok'', JBool True)]) None"

definition ex_logout_404 :: json_net where
  "ex_logout_404 u = Answer 404 (JObj [(''error'', JStr ''Session not found'')]) None"

text \<open>The two server objects of \<open>ex_counted\<close>.\<close>

definition ex_server1 :: server where
  "ex_server1 = new_server ex_clock ''http://a'' 0"

definition ex_server2 :: server where
  "ex_server2 =
     \<lparr>server_id = ''server-2'', url = ''http://b'', status = HEALTHY, sessionCount = 1,
      lastChecked = Some (iso ex_clock), responseTime = 0, isActive = True,
      sessions = [Some ''sess-abc''],
      metadata = \<lparr>createdAt = iso ex_clock, healthChecks = 1, failures = 0, deletedSessions = 0\<rparr>,
      error = None, sessionsList = None\<rparr>"

text \<open>A pairing request, and upstream answers to it.\<close>

definition ex_request :: request where
  "ex_request = \<lparr>req_method = ''GET'', originalUrl = ''/pair/33612345678'', req_body = None,
                  req_headers = [], req_ip = ''10.0.0.1''\<rparr>"

definition ex_error_body :: json where
  "ex_error_body = JObj [(''error'', JStr ''Invalid number'')]"

definition ex_ok_body :: json where
  "ex_ok_body = JObj [(''ok'', JBool True), (''sessionId'', JStr ''sess-new''), (''code'', JStr ''ABCD-1234'')]"

definition ex_world_error :: world where
  "ex_world_error = \<lparr>w_clock = ex_clock, w_net = ex_net, w_fwd = (\<lambda>c. Answer 200 ex_error_body None)\<rparr>"

definition ex_world_ok :: world where
  "ex_world_ok = \<lparr>w_clock = ex_clock, w_net = ex_net, w_fwd = (\<lambda>c. Answer 200 ex_ok_body None)\<rparr>"

definition ex_worlds_error :: "nat \<Rightarrow> world" where
  "ex_worlds_error k = ex_world_error"

definition ex_worlds_ok :: "nat \<Rightarrow> world" where
  "ex_worlds_ok k = ex_world_ok"

text \<open>The server chosen for the request in \<open>ex_init\<close>, and the state after the choice.\<close>

definition ex_selected :: server where
  "ex_selected =
     \<lparr>server_id = ''server-1'', url = ''http://a'', status = HEALTHY, sessionCount = 0,
      lastChecked = Some (iso ex_clock), responseTime = 0, isActive = True,
      sessions = [],
      metadata = \<lparr>createdAt = iso ex_clock, healthChecks = 1, failures = 0, deletedSessions = 0\<rparr>,
      error = None, sessionsList = None\<rparr>"

definition ex_after_select :: state where
  "ex_after_select =
     \<lparr>servers = [ex_selected, ex_server2],
      sessionMap = [''sess-abc'' \<mapsto> ''server-2''], cache = Map.empty, roundRobinIndex = 0,
      trace = [Probe ''http://a/sessions'', Probe ''http://b/sessions'']\<rparr>"


text \<open>
  A lookup of another session on the second backend leaves \<open>sess-abc\<close> in the memory of the
  second server and out of the index; later the first backend lists \<open>sess-abc\<close> as well.
\<close>

definition ex_session_other :: session_obj where
  "ex_session_other = \<lparr>sess_id = Some ''sess-other'', sessionId = None\<rparr>"

definition ex_net_two :: probe_net where
  "ex_net_two u = (if u = ''http://b/sessions'' then Answer 200 (Some [ex_session, ex_session_other]) None
                   else Answer 200 (Some []) None)"

definition ex_found_other :: state where
  "ex_found_other = snd (findSessionServer ex_net_two ''sess-other'' ex_init)"

definition ex_net_both :: probe_net where
  "ex_net_both u = (if u = ''http://b/sessions'' then Answer 200 (Some [ex_session, ex_session_other]) None
                    else Answer 200 (Some [ex_session]) None)"

definition found_id :: "find_result option \<Rightarrow> string option" where
  "found_id r = map_option (server_id \<circ> fr_server) r"

definition found_cached :: "find_result option \<Rightarrow> bool option" where
  "found_cached r = map_option fr_cached r"

definition ex_server2_two :: server where
  "ex_server2_two =
     (new_server ex_clock ''http://b'' 1)\<lparr>sessions := [Some ''sess-abc'', Some ''sess-other'']\<rparr>"


text \<open>A world in which no backend lists a session.\<close>

definition ex_net_idle :: probe_net where
  "ex_net_idle u = Answer 200 (Some []) None"

text \<open>A world in which every forwarded request ends with a reset connection.\<close>

definition ex_world_reset :: world where
  "ex_world_reset = \<lparr>w_clock = ex_clock, w_net = ex_net_idle,
                      w_fwd = (\<lambda>c. NoAnswer (Some ''ECONNRESET'') ''socket hang up'')\<rparr>"

definition ex_worlds_reset :: "nat \<Rightarrow> world" where
  "ex_worlds_reset k = ex_world_reset"

text \<open>The data of a status update that carries the key \<open>isActive\<close>, or the key \<open>status\<close>.\<close>

definition ex_flag_patch :: patch where
  "ex_flag_patch = no_patch\<lparr>p_isActive := Some True\<rparr>"

definition ex_status_patch :: patch where
  "ex_status_patch = no_patch\<lparr>p_status := Some FULL\<rparr>"

definition active_of :: "state \<Rightarrow> string \<Rightarrow> bool option" where
  "active_of st serverId = map_option isActive (getServer st serverId)"

text \<open>
  The first server taken out of service by a status update with the status \<open>'maintenance'\<close>
  and the data \<open>isActive: false\<close>.
\<close>

definition ex_retired :: state where
  "ex_retired = updateServerStatus ex_clock ''server-1'' ''maintenance''
                  (no_patch\<lparr>p_isActive := Some False\<rparr>) ex_init"

section \<open>Lemmas about the registry\<close>

lemma status_distinct [simp]:
  "HEALTHY \<noteq> UNHEALTHY" "HEALTHY \<noteq> FULL" "UNHEALTHY \<noteq> FULL"
  "UNHEALTHY \<noteq> HEALTHY" "FULL \<noteq> HEALTHY" "FULL \<noteq> UNHEALTHY"
  by (simp_all add: HEALTHY_def UNHEALTHY_def FULL_def)

lemma known_status_simps [simp]:
  "known_status HEALTHY" "known_status UNHEALTHY" "known_status FULL"
  by (simp_all add: known_status_def)

lemma modify_entry_absent:
  "find (\<lambda>s. server_id s = i) xs = None \<Longrightarrow> modify_entry i f xs = xs"
  by (induction xs) (auto split: if_splits)

lemma find_modify_entry_same:
  "find (\<lambda>s. server_id s = i) xs = Some s \<Longrightarrow> server_id (f s) = i \<Longrightarrow>
   find (\<lambda>s. server_id s = i) (modify_entry i f xs) = Some (f s)"
  by (induction xs) (auto split: if_splits)

lemma find_modify_entry_other:
  "(\<And>s. server_id (f s) = server_id s) \<Longrightarrow> j \<noteq> i \<Longrightarrow>
   find (\<lambda>s. server_id s = j) (modify_entry i f xs) = find (\<lambda>s. server_id s = j) xs"
  by (induction xs) (auto split: if_splits)

lemma find_id: "find (\<lambda>s. server_id s = i) xs = Some s \<Longrightarrow> server_id s = i"
  by (induction xs) (auto split: if_splits)

lemma getServer_None_iff: "getServer st i = None \<longleftrightarrow> i \<notin> set (map server_id (servers st))"
  by (auto simp: getServer_def find_None_iff)

lemma status_writes_id [simp]: "server_id (status_writes clk ns d s) = server_id s"
  by (simp add: status_writes_def assign_patch_def Let_def)

lemma decimal_small [simp]:
  "decimal (Suc 0) = ''1''" "decimal 1 = ''1''" "decimal 2 = ''2''"
  "decimal (Suc (Suc 0)) = ''2''"
  by (simp_all add: decimal.simps digits_def)

lemma ex_init_servers:
  "servers ex_init =
     [new_server ex_clock ''http://a'' 0, new_server ex_clock ''http://b'' 1]"
  by (simp add: ex_init_def initializeServers_def new_server_def)

lemma ex_init_ids: "map server_id (servers ex_init) = [''server-1'', ''server-2'']"
  by (simp add: ex_init_servers new_server_def)


section \<open>Every operation lets the servers evolve\<close>

lemma evolves_refl [simp]: "evolves s s"
  by (simp add: evolves_def)

lemma evolves_trans: "evolves a b \<Longrightarrow> evolves b c \<Longrightarrow> evolves a c"
  by (auto simp: evolves_def)

lemma steps_to_refl [simp]: "steps_to st st"
  by (simp add: steps_to_def list_all2_refl)

lemma steps_to_trans: "steps_to a b \<Longrightarrow> steps_to b c \<Longrightarrow> steps_to a c"
  unfolding steps_to_def
  using list_all2_trans[of evolves evolves evolves] evolves_trans by blast

lemma steps_to_same_servers: "servers st' = servers st \<Longrightarrow> steps_to st st'"
  by (simp add: steps_to_def list_all2_refl)

lemma modify_entry_evolves:
  "(\<And>s. evolves s (f s)) \<Longrightarrow> list_all2 evolves xs (modify_entry i f xs)"
  by (induction xs) (auto simp: list_all2_refl)

lemma modify_entry_evolves_found:
  "(\<And>s. find (\<lambda>s. server_id s = i) xs = Some s \<Longrightarrow> evolves s (f s))
   \<Longrightarrow> list_all2 evolves xs (modify_entry i f xs)"
  by (induction xs) (auto simp: list_all2_refl)

lemma modify_server_steps_found:
  "(\<And>s. getServer st i = Some s \<Longrightarrow> evolves s (f s)) \<Longrightarrow> steps_to st (modify_server i f st)"
  by (simp add: steps_to_def modify_server_def getServer_def modify_entry_evolves_found)

lemma modify_server_steps:
  "(\<And>s. evolves s (f s)) \<Longrightarrow> steps_to st (modify_server i f st)"
  by (simp add: steps_to_def modify_server_def modify_entry_evolves)

lemma plain_no_patch [simp]:
  "plain_patch no_patch"
  "plain_patch (d\<lparr>p_sessionCount := a\<rparr>) = plain_patch d"
  "plain_patch (d\<lparr>p_responseTime := b\<rparr>) = plain_patch d"
  "plain_patch (d\<lparr>p_error := c\<rparr>) = plain_patch d"
  "plain_patch (d\<lparr>p_lastChecked := e\<rparr>) = plain_patch d"
  "plain_patch (d\<lparr>p_sessionsList := f\<rparr>) = plain_patch d"
  "plain_patch (d\<lparr>p_sessions := g\<rparr>) = plain_patch d"
  "plain_patch (d\<lparr>p_metadata := h\<rparr>) = plain_patch d"
  by (simp_all add: plain_patch_def no_patch_def)

lemma status_writes_evolves:
  "plain_patch d \<Longrightarrow> known_status ns \<or> ns = status s \<Longrightarrow> evolves s (status_writes clk ns d s)"
  by (auto simp: evolves_def consistent_def known_status_def status_writes_def assign_patch_def
        plain_patch_def Let_def)

lemma updateServerStatus_steps_live:
  assumes "plain_patch d" and "\<And>a. getServer st i = Some a \<Longrightarrow> known_status ns \<or> ns = status a"
  shows "steps_to st (updateServerStatus clk i ns d st)"
proof (cases "getServer st i")
  case None
  then show ?thesis by (simp add: updateServerStatus_def)
next
  case (Some a)
  have "steps_to st (modify_server i (status_writes clk ns d) st)"
    by (rule modify_server_steps_found) (rule status_writes_evolves [OF assms])
  then show ?thesis
    using Some by (simp add: updateServerStatus_def cache_delete_def steps_to_def)
qed

lemma updateServerStatus_steps:
  "plain_patch d \<Longrightarrow> known_status ns \<Longrightarrow> steps_to st (updateServerStatus clk i ns d st)"
  by (rule updateServerStatus_steps_live) simp_all

lemma resetServer_steps: "steps_to st (resetServer i st)"
proof (cases "getServer st i")
  case None
  then show ?thesis by (simp add: resetServer_def)
next
  case (Some a)
  have "steps_to st (modify_server i (\<lambda>s. s\<lparr>status := HEALTHY, isActive := True\<rparr>) st)"
    by (rule modify_server_steps) (simp add: evolves_def consistent_def)
  then show ?thesis using Some by (simp add: resetServer_def)
qed

lemma cache_get_servers [simp]: "servers (snd (cache_get k clk st)) = servers st"
  by (simp add: cache_get_def split: option.split prod.split)

lemma issue_servers [simp]: "servers (issue c st) = servers st"
  by (simp add: issue_def)

lemma set_sessions_steps:
  "steps_to st (modify_server i (\<lambda>s. s\<lparr>sessions := f s\<rparr>) st)"
  by (rule modify_server_steps) (simp add: evolves_def consistent_def)

lemma getServerSessionCount_steps:
  "steps_to st (snd (getServerSessionCount cfg net clk i st))"
proof -
  obtain v st1 where cg: "cache_get (cacheKey i) clk st = (v, st1)" by (cases "cache_get (cacheKey i) clk st")
  then have s1: "servers st1 = servers st"
    using cache_get_servers[of "cacheKey i" clk st] by simp
  have a: "steps_to st st1" using s1 by (rule steps_to_same_servers)
  show ?thesis
  proof (cases v)
    case (Some c)
    then show ?thesis using cg a by (simp add: getServerSessionCount_def)
  next
    case None
    show ?thesis
    proof (cases "getServer st1 i")
      case N2: None
      then show ?thesis using cg None a by (simp add: getServerSessionCount_def)
    next
      case (Some server)
      let ?target = "url server @ ''/sessions''"
      let ?st2 = "issue (Probe ?target) st1"
      have b: "steps_to st ?st2" using s1 by (simp add: steps_to_same_servers)
      show ?thesis
      proof (cases "axios default_validate (net ?target)")
        case (Inl err)
        have "steps_to ?st2 (updateServerStatus clk i UNHEALTHY (no_patch\<lparr>p_error := Some (e_message err)\<rparr>) ?st2)"
          by (rule updateServerStatus_steps) simp_all
        with b have "steps_to st (updateServerStatus clk i UNHEALTHY (no_patch\<lparr>p_error := Some (e_message err)\<rparr>) ?st2)"
          by (rule steps_to_trans)
        then show ?thesis using cg None Some Inl b
          by (simp add: getServerSessionCount_def Let_def)
      next
        case (Inr resp)
        let ?ss = "or_empty (r_data resp)"
        let ?st3 = "modify_server i (\<lambda>s. s\<lparr>sessions := map id_or_sessionId ?ss\<rparr>) ?st2"
        let ?st5 = "cache_set (cacheKey i) (length ?ss) (SESSION_CACHE_TTL cfg) clk
                      (?st3\<lparr>sessionMap := index_sessions i ?ss (sessionMap ?st3)\<rparr>)"
        have c: "steps_to ?st2 ?st3" by (rule set_sessions_steps)
        have d: "steps_to ?st3 ?st5" by (rule steps_to_same_servers) (simp add: cache_set_def)
        have e: "steps_to st ?st5" using b c d by (blast intro: steps_to_trans)
        have id: "server_id server = i"
          using Some by (auto simp: getServer_def dest: find_id)
        have "steps_to ?st5 (updateServerStatus clk i (status (live ?st5 server))
                 (no_patch\<lparr>p_sessionCount := Some (length ?ss),
                           p_responseTime := Some (or_zero (r_duration resp))\<rparr>) ?st5)"
          by (rule updateServerStatus_steps_live) (simp_all add: live_def id)
        with e have "steps_to st (updateServerStatus clk i (status (live ?st5 server))
                 (no_patch\<lparr>p_sessionCount := Some (length ?ss),
                           p_responseTime := Some (or_zero (r_duration resp))\<rparr>) ?st5)"
          by (rule steps_to_trans)
        then show ?thesis using cg None Some Inr
          by (simp add: getServerSessionCount_def Let_def)
      qed
    qed
  qed
qed


lemma local_cleanup_steps: "steps_to st (local_cleanup i sid st)"
proof -
  have "steps_to st (st\<lparr>sessionMap := (sessionMap st)(sid := None)\<rparr>)"
    by (simp add: steps_to_same_servers)
  moreover have "steps_to (st\<lparr>sessionMap := (sessionMap st)(sid := None)\<rparr>) (local_cleanup i sid st)"
    unfolding local_cleanup_def by (rule set_sessions_steps)
  ultimately show ?thesis by (rule steps_to_trans)
qed

lemma deleteSessionFromServer_steps:
  "steps_to st (snd (deleteSessionFromServer net i sid st))"
proof (cases "getServer st i")
  case None
  then show ?thesis by (simp add: deleteSessionFromServer_def)
next
  case (Some server)
  let ?target = "url server @ ''/logout/'' @ sid"
  let ?st1 = "issue (Logout ?target) st"
  have a: "steps_to st ?st1" by (simp add: steps_to_same_servers)
  show ?thesis
  proof (cases "axios default_validate (net ?target)")
    case (Inl err)
    have "steps_to st (local_cleanup i sid ?st1)"
      using a local_cleanup_steps by (rule steps_to_trans)
    then show ?thesis using Some Inl a
      by (simp add: deleteSessionFromServer_def Let_def split: option.split)
  next
    case (Inr resp)
    let ?st2 = "modify_server i (\<lambda>s. s\<lparr>metadata := (metadata s)
                   \<lparr>deletedSessions := deletedSessions (metadata s) + 1\<rparr>\<rparr>) ?st1"
    let ?st3 = "local_cleanup i sid ?st2"
    let ?st4 = "modify_server i (\<lambda>s. if sessionCount s > 0
                   then s\<lparr>sessionCount := sessionCount s - 1\<rparr> else s) ?st3"
    have b: "steps_to ?st1 ?st2" by (rule modify_server_steps) (simp add: evolves_def consistent_def)
    have c: "steps_to ?st2 ?st3" by (rule local_cleanup_steps)
    have d: "steps_to ?st3 ?st4" by (rule modify_server_steps) (simp add: evolves_def consistent_def)
    have e: "steps_to ?st4 (cache_delete (cacheKey i) ?st4)"
      by (rule steps_to_same_servers) (simp add: cache_delete_def)
    have "steps_to st (cache_delete (cacheKey i) ?st4)"
      using a b c d e by (blast intro: steps_to_trans)
    then show ?thesis using Some Inr
      by (simp add: deleteSessionFromServer_def Let_def)
  qed
qed

lemma findLoop_steps: "steps_to st (snd (findLoop net sid xs st))"
proof (induction xs arbitrary: st)
  case Nil
  then show ?case by simp
next
  case (Cons server rest)
  let ?target = "url server @ ''/sessions''"
  let ?st1 = "issue (Probe ?target) st"
  have a: "steps_to st ?st1" by (simp add: steps_to_same_servers)
  show ?case
  proof (cases "List.member (sessions (live st server)) (Some sid)")
    case True
    then show ?thesis by (simp add: Let_def steps_to_same_servers)
  next
    case False
    show ?thesis
    proof (cases "axios default_validate (net ?target)")
      case (Inl err)
      have "steps_to st (snd (findLoop net sid rest ?st1))"
        using a Cons.IH by (rule steps_to_trans)
      then show ?thesis using False Inl by (simp add: Let_def)
    next
      case (Inr resp)
      let ?st2 = "modify_server (server_id server)
                    (\<lambda>s. s\<lparr>sessions := map id_or_sessionId (or_empty (r_data resp))\<rparr>) ?st1"
      have b: "steps_to st ?st2" using a set_sessions_steps by (rule steps_to_trans)
      have c: "steps_to st (?st2\<lparr>sessionMap := (sessionMap ?st2)(sid \<mapsto> server_id server)\<rparr>)"
        using b by (simp add: steps_to_def)
      have d: "steps_to st (snd (findLoop net sid rest ?st2))"
        using b Cons.IH by (rule steps_to_trans)
      show ?thesis using False Inr c d by (simp add: Let_def)
    qed
  qed
qed

lemma findSessionServer_steps: "steps_to st (snd (findSessionServer net sid st))"
  by (simp add: findSessionServer_def findLoop_steps split: option.split)

lemma checkServerHealth_steps: "steps_to st (checkServerHealth cfg net clk server st)"
proof -
  let ?st1 = "issue (Probe (url server @ ''/sessions'')) st"
  have a: "steps_to st ?st1" by (simp add: steps_to_same_servers)
  have "\<And>ns d. plain_patch d \<Longrightarrow> known_status ns
            \<Longrightarrow> steps_to st (updateServerStatus clk (server_id server) ns d ?st1)"
    using a by (rule steps_to_trans) (rule updateServerStatus_steps)
  then show ?thesis
    by (simp add: checkServerHealth_def Let_def split: sum.split)
qed

lemma healthLoop_steps: "steps_to st (healthLoop cfg net clk xs st)"
proof (induction xs arbitrary: st)
  case Nil
  then show ?case by simp
next
  case (Cons s rest)
  have "steps_to st (checkServerHealth cfg net clk s st)" by (rule checkServerHealth_steps)
  then show ?case using Cons.IH by (auto intro: steps_to_trans)
qed

lemma performHealthChecks_steps: "steps_to st (performHealthChecks cfg net clk st)"
  by (simp add: performHealthChecks_def healthLoop_steps)

lemma countLoop_steps: "steps_to st (snd (countLoop cfg net clk xs st))"
proof (induction xs arbitrary: st)
  case Nil
  then show ?case by simp
next
  case (Cons s rest)
  obtain r st1 where g: "getServerSessionCount cfg net clk (server_id s) st = (r, st1)"
    by (cases "getServerSessionCount cfg net clk (server_id s) st")
  have a: "steps_to st st1" using getServerSessionCount_steps[of st cfg net clk "server_id s"] g by simp
  have "steps_to st (snd (countLoop cfg net clk rest st1))"
    using a Cons.IH by (rule steps_to_trans)
  then show ?case using g by (auto split: prod.split)
qed

lemma selectOptimalServer_steps: "steps_to st (snd (selectOptimalServer cfg net clk st))"
proof (cases "getActiveServers st = []")
  case True
  then show ?thesis by (simp add: selectOptimalServer_def Let_def)
next
  case False
  obtain xs st1 where c: "countLoop cfg net clk (getActiveServers st) st = (xs, st1)"
    by (cases "countLoop cfg net clk (getActiveServers st) st")
  have a: "steps_to st st1" using countLoop_steps[of st cfg net clk "getActiveServers st"] c by simp
  then have b: "\<And>i. steps_to st (st1\<lparr>roundRobinIndex := i\<rparr>)" by (simp add: steps_to_def)
  show ?thesis using False c a b
    by (simp add: selectOptimalServer_def Let_def split: list.split)
qed

lemma forwardRequest_steps: "steps_to st (snd (forwardRequest cfg ws req server retries st))"
proof (induction cfg ws req server retries st rule: forwardRequest.induct)
  case (1 cfg ws req server retries st)
  let ?c = "forward_config cfg (w_clock (ws retries)) req server"
  let ?st1 = "issue (Forward (c_url ?c)) st"
  have a: "steps_to st ?st1" by (simp add: steps_to_same_servers)
  show ?case
  proof (cases "axios accept_all (w_fwd (ws retries) ?c)")
    case (Inr resp)
    then show ?thesis using a by (subst forwardRequest.simps) (simp add: Let_def)
  next
    case (Inl err)
    let ?st2 = "if marks_unhealthy (e_code err)
                then updateServerStatus (w_clock (ws retries)) (server_id server) UNHEALTHY
                       (no_patch\<lparr>p_error := Some (e_message err)\<rparr>) ?st1
                else ?st1"
    have "steps_to ?st1 (updateServerStatus (w_clock (ws retries)) (server_id server) UNHEALTHY
                           (no_patch\<lparr>p_error := Some (e_message err)\<rparr>) ?st1)"
      by (rule updateServerStatus_steps) simp_all
    with a have "steps_to st (updateServerStatus (w_clock (ws retries)) (server_id server) UNHEALTHY
                           (no_patch\<lparr>p_error := Some (e_message err)\<rparr>) ?st1)"
      by (rule steps_to_trans)
    then have b: "steps_to st ?st2"
      using a by simp
    show ?thesis
    proof (cases "retries < MAX_RETRIES cfg")
      case False
      then show ?thesis using Inl b by (subst forwardRequest.simps) (simp add: Let_def)
    next
      case True
      obtain r st3 where sel: "selectOptimalServer cfg (w_net (ws (retries + 1)))
                              (w_clock (ws (retries + 1))) ?st2 = (r, st3)"
        by (cases "selectOptimalServer cfg (w_net (ws (retries + 1))) (w_clock (ws (retries + 1))) ?st2")
      have c: "steps_to st st3"
        using b selectOptimalServer_steps[of ?st2 cfg "w_net (ws (retries + 1))" "w_clock (ws (retries + 1))"] sel
        by (auto intro: steps_to_trans)
      show ?thesis
      proof (cases r)
        case (Inl e)
        then show ?thesis using \<open>axios accept_all (w_fwd (ws retries) ?c) = Inl err\<close> True sel c
          by (subst forwardRequest.simps) (simp add: Let_def)
      next
        case (Inr newServer)
        have "steps_to st3 (snd (forwardRequest cfg ws req newServer (retries + 1) st3))"
          using "1.IH"[OF refl refl \<open>axios accept_all (w_fwd (ws retries) ?c) = Inl err\<close> refl True sel[symmetric] Inr] .
        with c have "steps_to st (snd (forwardRequest cfg ws req newServer (retries + 1) st3))"
          by (rule steps_to_trans)
        then show ?thesis using \<open>axios accept_all (w_fwd (ws retries) ?c) = Inl err\<close> True sel Inr
          by (subst forwardRequest.simps) (simp add: Let_def)
      qed
    qed
  qed
qed


lemma pair_bookkeeping_steps: "steps_to st (pair_bookkeeping cfg w server d st)"
proof -
  obtain r st1 where g: "getServerSessionCount cfg (w_net w) (w_clock w) (server_id server) st = (r, st1)"
    by (cases "getServerSessionCount cfg (w_net w) (w_clock w) (server_id server) st")
  have a: "steps_to st st1"
    using getServerSessionCount_steps[of st cfg "w_net w" "w_clock w" "server_id server"] g by simp
  then have "\<And>m. steps_to st (st1\<lparr>sessionMap := m\<rparr>)" by (simp add: steps_to_def)
  then show ?thesis using g a
    by (simp add: pair_bookkeeping_def split: sum.split option.split)
qed

lemma pair_respond_steps: "steps_to st (snd (pair_respond cfg w server resp st))"
  by (simp add: pair_respond_def Let_def pair_bookkeeping_steps split: option.split)

lemma handlePair_steps: "steps_to st (snd (handlePair cfg w0 ws w1 req st))"
proof -
  obtain r st1 where sel: "selectOptimalServer cfg (w_net w0) (w_clock w0) st = (r, st1)"
    by (cases "selectOptimalServer cfg (w_net w0) (w_clock w0) st")
  have a: "steps_to st st1"
    using selectOptimalServer_steps[of st cfg "w_net w0" "w_clock w0"] sel by simp
  show ?thesis
  proof (cases r)
    case (Inl e)
    then show ?thesis using sel a by (simp add: handlePair_def)
  next
    case (Inr srv)
    obtain q st2 where fw: "forwardRequest cfg ws req srv 0 st1 = (q, st2)"
      by (cases "forwardRequest cfg ws req srv 0 st1")
    have b: "steps_to st st2"
      using a forwardRequest_steps[of st1 cfg ws req srv 0] fw by (auto intro: steps_to_trans)
    show ?thesis
    proof (cases q)
      case (Inl e)
      then show ?thesis using sel Inr fw b by (simp add: handlePair_def)
    next
      case Inr2: (Inr resp)
      have "steps_to st (snd (pair_respond cfg w1 srv resp st2))"
        using b pair_respond_steps by (rule steps_to_trans)
      then show ?thesis using sel Inr fw Inr2 by (simp add: handlePair_def)
    qed
  qed
qed

lemma apply_op_steps: "keeps_flags op \<Longrightarrow> steps_to st (apply_op cfg st op)"
  by (cases op)
     (simp_all add: updateServerStatus_steps resetServer_steps getServerSessionCount_steps
        deleteSessionFromServer_steps findSessionServer_steps checkServerHealth_steps
        performHealthChecks_steps selectOptimalServer_steps forwardRequest_steps handlePair_steps)

lemma consistent_servers:
  "list_all consistent (servers st) = (active_iff_healthy st \<and> known_statuses st)"
  unfolding active_iff_healthy_def known_statuses_def
  by (induction "servers st" arbitrary: st) (auto simp: consistent_def list_all_iff)

lemma steps_to_consistent:
  "steps_to st st' \<Longrightarrow> list_all consistent (servers st) \<Longrightarrow> list_all consistent (servers st')"
  unfolding steps_to_def
  by (induction rule: list_all2_induct) (auto simp: evolves_def)

lemma steps_to_active:
  "steps_to st st' \<Longrightarrow> active_iff_healthy st \<and> known_statuses st
   \<Longrightarrow> active_iff_healthy st' \<and> known_statuses st'"
  unfolding consistent_servers [symmetric] by (rule steps_to_consistent)

lemma steps_to_ids: "steps_to st st' \<Longrightarrow> map server_id (servers st') = map server_id (servers st)"
  unfolding steps_to_def
  by (induction rule: list_all2_induct) (auto simp: evolves_def)

lemma map_set_all: "list_all P xs \<Longrightarrow> P v \<Longrightarrow> list_all P (map_set v xs)"
  by (induction xs) auto

lemma initLoop_all:
  "list_all P reg \<Longrightarrow> (\<And>u i. P (new_server clk u i)) \<Longrightarrow> list_all P (initLoop clk urls index reg)"
  by (induction urls arbitrary: index reg) (auto simp: map_set_all)

lemma initializeServers_active:
  "active_iff_healthy (initializeServers clk urls) \<and> known_statuses (initializeServers clk urls)"
  unfolding active_iff_healthy_def known_statuses_def initializeServers_def
  by (simp add: initLoop_all new_server_def)

lemma foldl_active:
  "active_iff_healthy st \<and> known_statuses st \<Longrightarrow> list_all keeps_flags ops
   \<Longrightarrow> active_iff_healthy (foldl (apply_op cfg) st ops) \<and> known_statuses (foldl (apply_op cfg) st ops)"
proof (induction ops arbitrary: st)
  case Nil
  then show ?case by simp
next
  case (Cons op ops)
  have "steps_to st (apply_op cfg st op)" using Cons.prems(2) by (simp add: apply_op_steps)
  then have "active_iff_healthy (apply_op cfg st op) \<and> known_statuses (apply_op cfg st op)"
    using Cons.prems(1) by (rule steps_to_active)
  then show ?case using Cons.IH Cons.prems(2) by simp
qed

section \<open>Lemmas about single operations\<close>

lemma getServer_same_servers: "servers st' = servers st \<Longrightarrow> getServer st' i = getServer st i"
  by (simp add: getServer_def)

lemma getServer_modify_same:
  "getServer st i = Some s \<Longrightarrow> server_id (f s) = i \<Longrightarrow> getServer (modify_server i f st) i = Some (f s)"
  by (simp add: getServer_def modify_server_def find_modify_entry_same)

lemma getServer_modify_other:
  "(\<And>s. server_id (f s) = server_id s) \<Longrightarrow> j \<noteq> i \<Longrightarrow>
   getServer (modify_server i f st) j = getServer st j"
  by (simp add: getServer_def modify_server_def find_modify_entry_other)

lemma getServer_id: "getServer st i = Some s \<Longrightarrow> server_id s = i"
  by (auto simp: getServer_def dest: find_id)

lemma updateServerStatus_same:
  "getServer st i = Some s \<Longrightarrow>
   getServer (updateServerStatus clk i ns d st) i = Some (status_writes clk ns d s)"
  by (simp add: updateServerStatus_def cache_delete_def getServer_modify_same getServer_id
      getServer_same_servers[of "_\<lparr>cache := _\<rparr>"])

lemma updateServerStatus_other_fields [simp]:
  "sessionMap (updateServerStatus clk i ns d st) = sessionMap st"
  "trace (updateServerStatus clk i ns d st) = trace st"
  "roundRobinIndex (updateServerStatus clk i ns d st) = roundRobinIndex st"
  by (simp_all add: updateServerStatus_def cache_delete_def modify_server_def split: option.split)

lemma ex_counted_eval:
  "servers ex_counted =
     [new_server ex_clock ''http://a'' 0,
      (new_server ex_clock ''http://b'' 1)
        \<lparr>status := HEALTHY, sessionCount := 1, lastChecked := Some (iso ex_clock), responseTime := 0, isActive := True,
         sessions := [Some ''sess-abc''],
         metadata := \<lparr>createdAt = iso ex_clock, healthChecks = 1, failures = 0, deletedSessions = 0\<rparr>\<rparr>]"
  "sessionMap ex_counted ''sess-abc'' = Some ''server-2''"
  "cache ex_counted = Map.empty"
  by (simp_all add: ex_counted_def getServerSessionCount_def cache_get_def cacheKey_def
      ex_init_def initializeServers_def getServer_def new_server_def ex_net_def axios_def
      default_validate_def issue_def or_empty_def modify_server_def id_or_sessionId_def
      ex_session_def cache_set_def live_def updateServerStatus_def cache_delete_def
      status_writes_def assign_patch_def no_patch_def or_zero_def Let_def)

lemma local_cleanup_getServer:
  "getServer st b = Some s \<Longrightarrow>
   getServer (local_cleanup b sid st) b = Some (s\<lparr>sessions := filter (\<lambda>x. x \<noteq> Some sid) (sessions s)\<rparr>)"
proof -
  assume g: "getServer st b = Some s"
  then have "getServer (st\<lparr>sessionMap := (sessionMap st)(sid := None)\<rparr>) b = Some s"
    by (simp add: getServer_def)
  then show ?thesis
    unfolding local_cleanup_def using getServer_id[OF g] by (simp add: getServer_modify_same)
qed

lemma local_cleanup_fields [simp]:
  "sessionMap (local_cleanup b sid st) = (sessionMap st)(sid := None)"
  "cache (local_cleanup b sid st) = cache st"
  "trace (local_cleanup b sid st) = trace st"
  by (simp_all add: local_cleanup_def modify_server_def)

lemma modify_server_fields [simp]:
  "sessionMap (modify_server i f st) = sessionMap st"
  "cache (modify_server i f st) = cache st"
  "trace (modify_server i f st) = trace st"
  "roundRobinIndex (modify_server i f st) = roundRobinIndex st"
  by (simp_all add: modify_server_def)

lemma delete_success:
  assumes known: "getServer st b = Some srv"
      and net: "net (url srv @ ''/logout/'' @ sid) = Answer code d dur" "200 \<le> code" "code < 300"
  shows "fst (deleteSessionFromServer net b sid st)
           = Inr \<lparr>dr_success = True, dr_serverId = b, dr_sessionId = sid, dr_response = d,
                  dr_newSessionCount = sessionCount srv - 1\<rparr>"
    and "getServer (snd (deleteSessionFromServer net b sid st)) b
           = Some (srv\<lparr>metadata := (metadata srv)\<lparr>deletedSessions := deletedSessions (metadata srv) + 1\<rparr>,
                      sessions := filter (\<lambda>x. x \<noteq> Some sid) (sessions srv),
                      sessionCount := sessionCount srv - 1\<rparr>)"
    and "sessionMap (snd (deleteSessionFromServer net b sid st)) = (sessionMap st)(sid := None)"
    and "cache (snd (deleteSessionFromServer net b sid st)) = (cache st)(cacheKey b := None)"
proof -
  let ?st1 = "issue (Logout (url srv @ ''/logout/'' @ sid)) st"
  let ?f1 = "\<lambda>s. s\<lparr>metadata := (metadata s)\<lparr>deletedSessions := deletedSessions (metadata s) + 1\<rparr>\<rparr>"
  let ?st2 = "modify_server b ?f1 ?st1"
  let ?st3 = "local_cleanup b sid ?st2"
  let ?f4 = "\<lambda>s. if sessionCount s > 0 then s\<lparr>sessionCount := sessionCount s - 1\<rparr> else s"
  let ?st4 = "modify_server b ?f4 ?st3"
  let ?st5 = "cache_delete (cacheKey b) ?st4"
  have id: "server_id srv = b" using known by (rule getServer_id)
  have g1: "getServer ?st1 b = Some srv" using known by (simp add: getServer_def)
  have g2: "getServer ?st2 b = Some (?f1 srv)" using g1 id by (simp add: getServer_modify_same)
  have g3: "getServer ?st3 b = Some ((?f1 srv)\<lparr>sessions := filter (\<lambda>x. x \<noteq> Some sid) (sessions srv)\<rparr>)"
    using local_cleanup_getServer[OF g2] by simp
  have g4: "getServer ?st4 b = Some (?f4 ((?f1 srv)\<lparr>sessions := filter (\<lambda>x. x \<noteq> Some sid) (sessions srv)\<rparr>))"
    using g3 id by (simp add: getServer_modify_same)
  have g5: "getServer ?st5 b = Some (?f4 ((?f1 srv)\<lparr>sessions := filter (\<lambda>x. x \<noteq> Some sid) (sessions srv)\<rparr>))"
    using g4 by (simp add: cache_delete_def getServer_def)
  have run: "deleteSessionFromServer net b sid st
        = (Inr \<lparr>dr_success = True, dr_serverId = server_id (live ?st5 srv), dr_sessionId = sid,
                 dr_response = d, dr_newSessionCount = sessionCount (live ?st5 srv)\<rparr>, ?st5)"
    using known net
    by (simp add: deleteSessionFromServer_def axios_def default_validate_def Let_def)
  have lv: "live ?st5 srv = ?f4 ((?f1 srv)\<lparr>sessions := filter (\<lambda>x. x \<noteq> Some sid) (sessions srv)\<rparr>)"
    using g5 id by (simp add: live_def)
  show "fst (deleteSessionFromServer net b sid st)
           = Inr \<lparr>dr_success = True, dr_serverId = b, dr_sessionId = sid, dr_response = d,
                  dr_newSessionCount = sessionCount srv - 1\<rparr>"
    unfolding run lv using id by simp
  show "getServer (snd (deleteSessionFromServer net b sid st)) b
           = Some (srv\<lparr>metadata := (metadata srv)\<lparr>deletedSessions := deletedSessions (metadata srv) + 1\<rparr>,
                      sessions := filter (\<lambda>x. x \<noteq> Some sid) (sessions srv),
                      sessionCount := sessionCount srv - 1\<rparr>)"
    unfolding run using g5 by (cases "sessionCount srv") simp_all
  show "sessionMap (snd (deleteSessionFromServer net b sid st)) = (sessionMap st)(sid := None)"
    unfolding run by (simp add: cache_delete_def issue_def)
  show "cache (snd (deleteSessionFromServer net b sid st)) = (cache st)(cacheKey b := None)"
    unfolding run by (simp add: cache_delete_def issue_def)
qed

lemma delete_404:
  assumes known: "getServer st b = Some srv"
      and net: "net (url srv @ ''/logout/'' @ sid) = Answer 404 d dur"
  shows "\<exists>e. fst (deleteSessionFromServer net b sid st) = Inl e
             \<and> e_response e = Some \<lparr>r_status = 404, r_data = d, r_duration = dur\<rparr>"
    and "getServer (snd (deleteSessionFromServer net b sid st)) b
           = Some (srv\<lparr>sessions := filter (\<lambda>x. x \<noteq> Some sid) (sessions srv)\<rparr>)"
    and "sessionMap (snd (deleteSessionFromServer net b sid st)) = (sessionMap st)(sid := None)"
    and "cache (snd (deleteSessionFromServer net b sid st)) = cache st"
proof -
  let ?st1 = "issue (Logout (url srv @ ''/logout/'' @ sid)) st"
  have g1: "getServer ?st1 b = Some srv" using known by (simp add: getServer_def)
  have run: "deleteSessionFromServer net b sid st
        = (Inl \<lparr>e_code = status_code 404, e_message = ''Request failed with status code '' @ decimal 404,
                 e_response = Some \<lparr>r_status = 404, r_data = d, r_duration = dur\<rparr>\<rparr>,
           local_cleanup b sid ?st1)"
    using known net
    by (simp add: deleteSessionFromServer_def axios_def default_validate_def Let_def)
  show "\<exists>e. fst (deleteSessionFromServer net b sid st) = Inl e
             \<and> e_response e = Some \<lparr>r_status = 404, r_data = d, r_duration = dur\<rparr>"
    unfolding run by simp
  show "getServer (snd (deleteSessionFromServer net b sid st)) b
           = Some (srv\<lparr>sessions := filter (\<lambda>x. x \<noteq> Some sid) (sessions srv)\<rparr>)"
    unfolding run using local_cleanup_getServer[OF g1] by simp
  show "sessionMap (snd (deleteSessionFromServer net b sid st)) = (sessionMap st)(sid := None)"
    unfolding run by (simp add: issue_def)
  show "cache (snd (deleteSessionFromServer net b sid st)) = cache st"
    unfolding run by (simp add: issue_def)
qed

lemma ex_counted_servers: "servers ex_counted = [ex_server1, ex_server2]"
  by (simp add: ex_counted_eval ex_server1_def ex_server2_def new_server_def)

lemma ex_counted_server2: "getServer ex_counted ''server-2'' = Some ex_server2"
  by (simp add: getServer_def ex_counted_servers ex_server1_def ex_server2_def new_server_def)


section \<open>Lemmas about forwarding and pairing\<close>

lemma forwardRequest_verbatim:
  "forwardRequest cfg ws req server retries st = (Inr resp, st') \<Longrightarrow>
   \<exists>k srv dur. w_fwd (ws k) (forward_config cfg (w_clock (ws k)) req srv)
                  = Answer (f_status resp) (f_data resp) dur
             \<and> accept_all (f_status resp)"
proof (induction cfg ws req server retries st rule: forwardRequest.induct)
  case (1 cfg ws req server retries st)
  let ?c = "forward_config cfg (w_clock (ws retries)) req server"
  let ?st1 = "issue (Forward (c_url ?c)) st"
  show ?case
  proof (cases "axios accept_all (w_fwd (ws retries) ?c)")
    case (Inr r)
    then have "resp = \<lparr>f_data = r_data r, f_status = r_status r\<rparr>"
      using "1.prems" by (subst (asm) forwardRequest.simps) (simp add: Let_def)
    moreover from Inr have "w_fwd (ws retries) ?c = Answer (r_status r) (r_data r) (r_duration r) \<and> accept_all (r_status r)"
      by (auto simp: axios_def Let_def split: raw_reply.splits if_splits)
    ultimately show ?thesis by auto
  next
    case (Inl err)
    let ?st2 = "if marks_unhealthy (e_code err)
                then updateServerStatus (w_clock (ws retries)) (server_id server) UNHEALTHY
                       (no_patch\<lparr>p_error := Some (e_message err)\<rparr>) ?st1
                else ?st1"
    show ?thesis
    proof (cases "retries < MAX_RETRIES cfg")
      case False
      then show ?thesis using Inl "1.prems"
        by (subst (asm) forwardRequest.simps) (simp add: Let_def)
    next
      case True
      obtain r st3 where sel: "selectOptimalServer cfg (w_net (ws (retries + 1)))
                              (w_clock (ws (retries + 1))) ?st2 = (r, st3)"
        by (cases "selectOptimalServer cfg (w_net (ws (retries + 1))) (w_clock (ws (retries + 1))) ?st2")
      show ?thesis
      proof (cases r)
        case Inl2: (Inl e)
        then show ?thesis using Inl True sel "1.prems"
          by (subst (asm) forwardRequest.simps) (simp add: Let_def)
      next
        case (Inr newServer)
        have "forwardRequest cfg ws req newServer (retries + 1) st3 = (Inr resp, st')"
          using Inl True sel Inr "1.prems"
          by (subst (asm) forwardRequest.simps) (simp add: Let_def)
        then show ?thesis
          using "1.IH"[OF refl refl Inl refl True sel[symmetric] Inr] by blast
      qed
    qed
  qed
qed

lemmas eval_defs =
  selectOptimalServer_def getActiveServers_def getAllServers_def
  new_server_def Let_def getServerSessionCount_def cache_get_def cacheKey_def
  getServer_def ex_net_def axios_def default_validate_def issue_def or_empty_def
  modify_server_def id_or_sessionId_def ex_session_def cache_set_def live_def
  updateServerStatus_def cache_delete_def status_writes_def assign_patch_def no_patch_def
  or_zero_def default_config_def math_min_def

lemma ex_select:
  "selectOptimalServer default_config ex_net ex_clock ex_init = (Inr ex_selected, ex_after_select)"
  by (simp add: ex_init_def initializeServers_def eval_defs ex_selected_def ex_after_select_def
      ex_server2_def ex_clock_def)

lemma ex_forward_error:
  "forwardRequest default_config ex_worlds_error ex_request ex_selected 0 ex_after_select
     = (Inr \<lparr>f_data = ex_error_body, f_status = 200\<rparr>,
        issue (Forward ''http://a/pair/33612345678/'') ex_after_select)"
  by (subst forwardRequest.simps)
     (simp add: ex_worlds_error_def ex_world_error_def forward_config_def ex_request_def
        matches_pair_def ex_selected_def axios_def accept_all_def Let_def)

lemma ex_forward_ok:
  "forwardRequest default_config ex_worlds_ok ex_request ex_selected 0 ex_after_select
     = (Inr \<lparr>f_data = ex_ok_body, f_status = 200\<rparr>,
        issue (Forward ''http://a/pair/33612345678/'') ex_after_select)"
  by (subst forwardRequest.simps)
     (simp add: ex_worlds_ok_def ex_world_ok_def forward_config_def ex_request_def
        matches_pair_def ex_selected_def axios_def accept_all_def Let_def)


section \<open>Lemmas about the number of forwarded requests\<close>

lemma forward_attempts_issue [simp]:
  "forward_attempts (issue (Probe u) st) = forward_attempts st"
  "forward_attempts (issue (Logout u) st) = forward_attempts st"
  "forward_attempts (issue (Forward u) st) = forward_attempts st + 1"
  by (simp_all add: forward_attempts_def issue_def)

lemma forward_attempts_same_trace: "trace st' = trace st \<Longrightarrow> forward_attempts st' = forward_attempts st"
  by (simp add: forward_attempts_def)

lemma forward_attempts_update [simp]:
  "forward_attempts (updateServerStatus clk i ns d st) = forward_attempts st"
  by (rule forward_attempts_same_trace) simp

lemma forward_attempts_count:
  "forward_attempts (snd (getServerSessionCount cfg net clk i st)) = forward_attempts st"
  by (simp add: getServerSessionCount_def cache_get_def Let_def forward_attempts_def issue_def
      cache_set_def
      split: option.split prod.split sum.split)

lemma forward_attempts_countLoop:
  "forward_attempts (snd (countLoop cfg net clk xs st)) = forward_attempts st"
proof (induction xs arbitrary: st)
  case Nil
  then show ?case by simp
next
  case (Cons s rest)
  obtain r st1 where g: "getServerSessionCount cfg net clk (server_id s) st = (r, st1)"
    by (cases "getServerSessionCount cfg net clk (server_id s) st")
  have "forward_attempts st1 = forward_attempts st"
    using forward_attempts_count[of cfg net clk "server_id s" st] g by simp
  then show ?case using g Cons.IH[of st1] by (auto split: prod.split)
qed

lemma forward_attempts_select:
  "forward_attempts (snd (selectOptimalServer cfg net clk st)) = forward_attempts st"
proof (cases "getActiveServers st = []")
  case True
  then show ?thesis by (simp add: selectOptimalServer_def Let_def)
next
  case False
  obtain xs st1 where c: "countLoop cfg net clk (getActiveServers st) st = (xs, st1)"
    by (cases "countLoop cfg net clk (getActiveServers st) st")
  have a: "forward_attempts st1 = forward_attempts st"
    using forward_attempts_countLoop[of cfg net clk "getActiveServers st" st] c by simp
  then have b: "\<And>i. forward_attempts (st1\<lparr>roundRobinIndex := i\<rparr>) = forward_attempts st"
    by (simp add: forward_attempts_def)
  show ?thesis using False c a b
    by (simp add: selectOptimalServer_def Let_def split: list.split)
qed

lemma forward_attempts_bounds:
  "forward_attempts st + 1 \<le> forward_attempts (snd (forwardRequest cfg ws req server retries st))
   \<and> forward_attempts (snd (forwardRequest cfg ws req server retries st))
       \<le> forward_attempts st + (MAX_RETRIES cfg - retries) + 1"
proof (induction cfg ws req server retries st rule: forwardRequest.induct)
  case (1 cfg ws req server retries st)
  let ?c = "forward_config cfg (w_clock (ws retries)) req server"
  let ?st1 = "issue (Forward (c_url ?c)) st"
  show ?case
  proof (cases "axios accept_all (w_fwd (ws retries) ?c)")
    case (Inr resp)
    then show ?thesis by (subst (1 2) forwardRequest.simps) (simp add: Let_def)
  next
    case (Inl err)
    let ?st2 = "if marks_unhealthy (e_code err)
                then updateServerStatus (w_clock (ws retries)) (server_id server) UNHEALTHY
                       (no_patch\<lparr>p_error := Some (e_message err)\<rparr>) ?st1
                else ?st1"
    have b: "forward_attempts ?st2 = forward_attempts st + 1" by simp
    show ?thesis
    proof (cases "retries < MAX_RETRIES cfg")
      case False
      then show ?thesis using Inl b by (subst (1 2) forwardRequest.simps) (simp add: Let_def)
    next
      case True
      obtain r st3 where sel: "selectOptimalServer cfg (w_net (ws (retries + 1)))
                              (w_clock (ws (retries + 1))) ?st2 = (r, st3)"
        by (cases "selectOptimalServer cfg (w_net (ws (retries + 1))) (w_clock (ws (retries + 1))) ?st2")
      have c: "forward_attempts st3 = forward_attempts st + 1"
        using forward_attempts_select[of cfg "w_net (ws (retries + 1))" "w_clock (ws (retries + 1))" ?st2] sel b
        by simp
      show ?thesis
      proof (cases r)
        case Inl2: (Inl e)
        then show ?thesis using Inl True sel c
          by (subst (1 2) forwardRequest.simps) (simp add: Let_def)
      next
        case (Inr newServer)
        have ih: "forward_attempts st3 + 1 \<le> forward_attempts (snd (forwardRequest cfg ws req newServer (retries + 1) st3))
          \<and> forward_attempts (snd (forwardRequest cfg ws req newServer (retries + 1) st3))
              \<le> forward_attempts st3 + (MAX_RETRIES cfg - (retries + 1)) + 1"
          using "1.IH"[OF refl refl Inl refl True sel[symmetric] Inr] .
        have eq: "forwardRequest cfg ws req server retries st
                = forwardRequest cfg ws req newServer (retries + 1) st3"
          using Inl True sel Inr by (subst forwardRequest.simps) (simp add: Let_def)
        show ?thesis unfolding eq using ih c True by arith
      qed
    qed
  qed
qed

section \<open>Lemmas about the session lookup\<close>

lemma find_distinct:
  "distinct (map server_id xs) \<Longrightarrow> s \<in> set xs \<Longrightarrow>
   find (\<lambda>x. server_id x = server_id s) xs = Some s"
  by (induction xs) (auto simp: image_iff)

lemma getServer_member:
  "distinct_ids st \<Longrightarrow> s \<in> set (servers st) \<Longrightarrow> getServer st (server_id s) = Some s"
  by (simp add: distinct_ids_def getServer_def find_distinct)

lemma live_known: "getServer st (server_id s) = Some s' \<Longrightarrow> live st s = s'"
  by (simp add: live_def)

lemma getServer_field_updates [simp]:
  "getServer (st\<lparr>sessionMap := m\<rparr>) i = getServer st i"
  "getServer (st\<lparr>cache := c\<rparr>) i = getServer st i"
  "getServer (st\<lparr>roundRobinIndex := r\<rparr>) i = getServer st i"
  "getServer (st\<lparr>trace := t\<rparr>) i = getServer st i"
  "getServer (issue call st) i = getServer st i"
  by (simp_all add: getServer_def issue_def)

lemma findLoop_spec:
  assumes "distinct (map server_id xs)" "\<forall>s\<in>set xs. getServer st (server_id s) = Some s"
  shows "found_id (fst (findLoop net sid xs st)) = map_option server_id (find (hit net sid) xs)
       \<and> found_cached (fst (findLoop net sid xs st)) = map_option (memory_hit sid) (find (hit net sid) xs)
       \<and> (fst (findLoop net sid xs st) \<noteq> None \<longrightarrow>
            sessionMap (snd (findLoop net sid xs st)) sid = found_id (fst (findLoop net sid xs st)))
       \<and> (fst (findLoop net sid xs st) = None \<longrightarrow>
            sessionMap (snd (findLoop net sid xs st)) = sessionMap st)
       \<and> trace (snd (findLoop net sid xs st)) = trace st @ map probe_call (probed net sid xs)"
  using assms
proof (induction xs arbitrary: st)
  case Nil
  then show ?case by (simp add: found_id_def found_cached_def)
next
  case (Cons server rest)
  have known: "getServer st (server_id server) = Some server" using Cons.prems(2) by fastforce
  have lv: "live st server = server" by (rule live_known[OF known])
  have restp: "\<forall>s\<in>set rest. getServer st (server_id s) = Some s" using Cons.prems(2) by fastforce
  have d: "distinct (map server_id rest)" using Cons.prems(1) by simp
  have ne: "\<And>s. s \<in> set rest \<Longrightarrow> server_id s \<noteq> server_id server" using Cons.prems(1) by (force simp: image_iff)
  show ?case
  proof (cases "memory_hit sid server")
    case True
    let ?st1 = "st\<lparr>sessionMap := (sessionMap st)(sid \<mapsto> server_id server)\<rparr>"
    have "getServer ?st1 (server_id server) = Some server"
      unfolding getServer_field_updates by (rule known)
    then have lv1: "live ?st1 server = server" by (rule live_known)
    have eq: "findLoop net sid (server # rest) st
        = (Some \<lparr>fr_server = server, fr_cached = True, fr_found = True, fr_sessionDetails = None\<rparr>, ?st1)"
      using True lv lv1 by (simp add: memory_hit_def Let_def)
    show ?thesis unfolding eq using True
      by (simp add: hit_def found_id_def found_cached_def)
  next
    case False
    let ?target = "url server @ ''/sessions''"
    let ?st1 = "issue (Probe ?target) st"
    show ?thesis
    proof (cases "axios default_validate (net ?target)")
      case (Inl err)
      have p: "\<forall>s\<in>set rest. getServer ?st1 (server_id s) = Some s"
        using restp by (simp add: getServer_def)
      have nh: "\<not> hit net sid server" using False Inl by (simp add: hit_def probe_hit_def)
      have eq: "findLoop net sid (server # rest) st = findLoop net sid rest ?st1"
        using False Inl lv by (simp add: memory_hit_def Let_def)
      show ?thesis unfolding eq using Cons.IH[OF d p] nh False Inl
        by (simp add: probe_hit_def probe_call_def issue_def)
    next
      case (Inr resp)
      let ?ss = "or_empty (r_data resp)"
      let ?f = "\<lambda>s. s\<lparr>sessions := map id_or_sessionId ?ss\<rparr>"
      let ?st2 = "modify_server (server_id server) ?f ?st1"
      have k1: "getServer ?st1 (server_id server) = Some server"
        unfolding getServer_field_updates by (rule known)
      have k2: "getServer ?st2 (server_id server) = Some (?f server)"
        by (rule getServer_modify_same[OF k1]) simp
      have p: "\<forall>s\<in>set rest. getServer ?st2 (server_id s) = Some s"
      proof
        fix s assume s: "s \<in> set rest"
        have "getServer ?st2 (server_id s) = getServer ?st1 (server_id s)"
          using ne[OF s] by (simp add: getServer_modify_other)
        also have "\<dots> = Some s" using restp s by (simp add: getServer_def)
        finally show "getServer ?st2 (server_id s) = Some s" .
      qed
      show ?thesis
      proof (cases "list_ex (matches_session sid) ?ss")
        case True
        let ?st3 = "?st2\<lparr>sessionMap := (sessionMap ?st2)(sid \<mapsto> server_id server)\<rparr>"
        have k3: "getServer ?st3 (server_id server) = Some (?f server)"
          unfolding getServer_field_updates by (rule k2)
        have h: "hit net sid server" using True Inr by (simp add: hit_def probe_hit_def)
        have eq: "findLoop net sid (server # rest) st
             = (Some \<lparr>fr_server = live ?st3 server, fr_cached = False, fr_found = True,
                      fr_sessionDetails = find (matches_session sid) ?ss\<rparr>, ?st3)"
          using False Inr lv True by (simp add: memory_hit_def Let_def)
        show ?thesis unfolding eq using h False True Inr live_known[OF k3]
          by (simp add: found_id_def found_cached_def probe_hit_def probe_call_def issue_def)
      next
        case F2: False
        have nh: "\<not> hit net sid server" using False F2 Inr by (simp add: hit_def probe_hit_def)
        have eq: "findLoop net sid (server # rest) st = findLoop net sid rest ?st2"
          using False Inr lv F2 by (simp add: memory_hit_def Let_def)
        show ?thesis unfolding eq using Cons.IH[OF d p] nh False F2 Inr
          by (simp add: probe_hit_def probe_call_def issue_def)
      qed
    qed
  qed
qed


lemma findLoop_index:
  "sessionMap (snd (findLoop net sid xs st))
     = (case found_id (fst (findLoop net sid xs st)) of
          None \<Rightarrow> sessionMap st
        | Some i \<Rightarrow> (sessionMap st)(sid \<mapsto> i))"
proof (induction xs arbitrary: st)
  case Nil
  then show ?case by (simp add: found_id_def)
next
  case (Cons server rest)
  let ?st1 = "issue (Probe (url server @ ''/sessions'')) st"
  have sm1: "sessionMap ?st1 = sessionMap st" by (simp add: issue_def)
  have lid: "\<And>s. server_id (live s server) = server_id server"
    by (auto simp: live_def dest: getServer_id split: option.split)
  show ?case
  proof (cases "List.member (sessions (live st server)) (Some sid)")
    case True
    then show ?thesis by (simp add: Let_def found_id_def lid)
  next
    case False
    show ?thesis
    proof (cases "axios default_validate (net (url server @ ''/sessions''))")
      case (Inl err)
      then show ?thesis using False Cons.IH[of ?st1] sm1 by (simp add: Let_def split: option.split)
    next
      case (Inr resp)
      let ?st2 = "modify_server (server_id server)
                    (\<lambda>s. s\<lparr>sessions := map id_or_sessionId (or_empty (r_data resp))\<rparr>) ?st1"
      have sm2: "sessionMap ?st2 = sessionMap st" by (simp add: issue_def)
      show ?thesis
      proof (cases "list_ex (matches_session sid) (or_empty (r_data resp))")
        case True
        then show ?thesis using False Inr sm2 by (simp add: Let_def found_id_def lid)
      next
        case F2: False
        then show ?thesis using False Inr Cons.IH[of ?st2] sm2 by (simp add: Let_def split: option.split)
      qed
    qed
  qed
qed

lemma findLoop_other:
  "i \<notin> set (map server_id xs) \<Longrightarrow> getServer (snd (findLoop net sid xs st)) i = getServer st i"
proof (induction xs arbitrary: st)
  case Nil
  then show ?case by simp
next
  case (Cons server rest)
  have ne: "i \<noteq> server_id server" and nr: "i \<notin> set (map server_id rest)"
    using Cons.prems by auto
  let ?st1 = "issue (Probe (url server @ ''/sessions'')) st"
  show ?case
  proof (cases "List.member (sessions (live st server)) (Some sid)")
    case True
    then show ?thesis by (simp add: Let_def)
  next
    case False
    show ?thesis
    proof (cases "axios default_validate (net (url server @ ''/sessions''))")
      case (Inl err)
      then show ?thesis using False Cons.IH[OF nr, of ?st1] by (simp add: Let_def)
    next
      case (Inr resp)
      let ?st2 = "modify_server (server_id server)
                    (\<lambda>s. s\<lparr>sessions := map id_or_sessionId (or_empty (r_data resp))\<rparr>) ?st1"
      have g2: "getServer ?st2 i = getServer st i"
        using ne by (simp add: getServer_modify_other)
      show ?thesis
      proof (cases "list_ex (matches_session sid) (or_empty (r_data resp))")
        case True
        then show ?thesis using False Inr g2 by (simp add: Let_def)
      next
        case F2: False
        then show ?thesis using False Inr Cons.IH[OF nr, of ?st2] g2 by (simp add: Let_def)
      qed
    qed
  qed
qed

lemma findLoop_refresh:
  assumes "distinct (map server_id xs)" "\<forall>s\<in>set xs. getServer st (server_id s) = Some s"
      and "s \<in> set (probed net sid xs)"
      and "axios default_validate (net (url s @ ''/sessions'')) = Inr resp"
  shows "sessions_of (snd (findLoop net sid xs st)) (server_id s)
           = Some (map id_or_sessionId (or_empty (r_data resp)))"
  using assms
proof (induction xs arbitrary: st)
  case Nil
  then show ?case by simp
next
  case (Cons server rest)
  have known: "getServer st (server_id server) = Some server" using Cons.prems(2) by fastforce
  have lv: "live st server = server" by (rule live_known[OF known])
  have restp: "\<forall>x\<in>set rest. getServer st (server_id x) = Some x" using Cons.prems(2) by fastforce
  have d: "distinct (map server_id rest)" using Cons.prems(1) by simp
  have hd_notin: "server_id server \<notin> set (map server_id rest)" using Cons.prems(1) by simp
  have ne: "\<And>x. x \<in> set rest \<Longrightarrow> server_id x \<noteq> server_id server"
    using Cons.prems(1) by (force simp: image_iff)
  have nm: "\<not> memory_hit sid server"
    using Cons.prems(3) by (auto split: if_splits)
  let ?target = "url server @ ''/sessions''"
  let ?st1 = "issue (Probe ?target) st"
  have k1: "getServer ?st1 (server_id server) = Some server"
    unfolding getServer_field_updates by (rule known)
  show ?case
  proof (cases "axios default_validate (net ?target)")
    case (Inl err)
    have nph: "\<not> probe_hit net sid server" using Inl by (simp add: probe_hit_def)
    have p: "\<forall>x\<in>set rest. getServer ?st1 (server_id x) = Some x"
      using restp by simp
    have mem: "s \<in> set (probed net sid rest)"
      using Cons.prems(3,4) nm nph Inl by auto
    have eq: "findLoop net sid (server # rest) st = findLoop net sid rest ?st1"
      using nm Inl lv by (simp add: memory_hit_def Let_def)
    show ?thesis unfolding eq by (rule Cons.IH[OF d p mem Cons.prems(4)])
  next
    case (Inr r)
    let ?f = "\<lambda>x. x\<lparr>sessions := map id_or_sessionId (or_empty (r_data r))\<rparr>"
    let ?st2 = "modify_server (server_id server) ?f ?st1"
    have k2: "getServer ?st2 (server_id server) = Some (?f server)"
      by (rule getServer_modify_same[OF k1]) simp
    have p: "\<forall>x\<in>set rest. getServer ?st2 (server_id x) = Some x"
    proof
      fix x assume x: "x \<in> set rest"
      have "getServer ?st2 (server_id x) = getServer ?st1 (server_id x)"
        using ne[OF x] by (simp add: getServer_modify_other)
      also have "\<dots> = Some x" using restp x by simp
      finally show "getServer ?st2 (server_id x) = Some x" .
    qed
    show ?thesis
    proof (cases "list_ex (matches_session sid) (or_empty (r_data r))")
      case True
      then have ph: "probe_hit net sid server" using Inr by (simp add: probe_hit_def)
      then have "s = server" using Cons.prems(3) nm by simp
      then have rr: "r = resp" using Inr Cons.prems(4) by simp
      have eq: "snd (findLoop net sid (server # rest) st)
            = ?st2\<lparr>sessionMap := (sessionMap ?st2)(sid \<mapsto> server_id server)\<rparr>"
        using nm Inr lv True by (simp add: memory_hit_def Let_def)
      show ?thesis unfolding eq sessions_of_def getServer_field_updates k2
        using \<open>s = server\<close> rr k2 by simp
    next
      case False
      then have nph: "\<not> probe_hit net sid server" using Inr by (simp add: probe_hit_def)
      have eq: "findLoop net sid (server # rest) st = findLoop net sid rest ?st2"
        using nm Inr lv False by (simp add: memory_hit_def Let_def)
      from Cons.prems(3) nm nph have "s = server \<or> s \<in> set (probed net sid rest)" by simp
      then show ?thesis
      proof
        assume ss: "s = server"
        then have rr: "r = resp" using Inr Cons.prems(4) by simp
        have "getServer (snd (findLoop net sid rest ?st2)) (server_id server)
                = getServer ?st2 (server_id server)"
          by (rule findLoop_other[OF hd_notin])
        then show ?thesis unfolding eq sessions_of_def using ss rr k2 by simp
      next
        assume mem: "s \<in> set (probed net sid rest)"
        show ?thesis unfolding eq by (rule Cons.IH[OF d p mem Cons.prems(4)])
      qed
    qed
  qed
qed

lemma ex_found_other_eval:
  "servers ex_found_other = [ex_server1, ex_server2_two]"
  "sessionMap ex_found_other = [''sess-other'' \<mapsto> ''server-2'']"
  "trace ex_found_other = [Probe ''http://a/sessions'', Probe ''http://b/sessions'']"
  by (simp_all add: ex_found_other_def findSessionServer_def index_hint_def ex_init_def
      initializeServers_def getAllServers_def live_def getServer_def new_server_def ex_net_two_def axios_def default_validate_def issue_def or_empty_def
      modify_server_def id_or_sessionId_def ex_session_def ex_session_other_def
      matches_session_def ex_server1_def ex_server2_two_def Let_def)

lemma ex_counted_hint: "index_hint ex_counted ''sess-abc'' = Some ex_server2"
  by (simp add: index_hint_def ex_counted_eval ex_counted_server2)


section \<open>Lemmas about session counts and selection\<close>

lemma count_of_view:
  "count_view st' i = count_view st i \<Longrightarrow> count_of cfg net clk st' i = count_of cfg net clk st i"
  unfolding count_of_def count_view_def getServerSessionCount_def cache_get_def
  by (cases "getServer st i"; cases "getServer st' i")
     (auto simp: Let_def split: option.splits prod.splits sum.splits)

lemma evolves_find_url:
  "list_all2 evolves xs ys \<Longrightarrow>
   map_option url (find (\<lambda>s. server_id s = j) ys) = map_option url (find (\<lambda>s. server_id s = j) xs)"
  by (induction rule: list_all2_induct) (auto simp: evolves_def)

lemma steps_to_url:
  "steps_to st st' \<Longrightarrow> map_option url (getServer st' j) = map_option url (getServer st j)"
  by (simp add: steps_to_def getServer_def evolves_find_url)

lemma cacheKey_inj [simp]: "cacheKey i = cacheKey j \<longleftrightarrow> i = j"
  by (simp add: cacheKey_def)

lemma count_cache_other:
  "k \<noteq> cacheKey i \<Longrightarrow> cache (snd (getServerSessionCount cfg net clk i st)) k = cache st k"
  by (simp add: getServerSessionCount_def cache_get_def Let_def cache_set_def issue_def
      updateServerStatus_def cache_delete_def
      split: option.split prod.split sum.split)

lemma count_view_other:
  "j \<noteq> i \<Longrightarrow> count_view (snd (getServerSessionCount cfg net clk i st)) j = count_view st j"
  by (simp add: count_view_def count_cache_other steps_to_url[OF getServerSessionCount_steps])

lemma count_of_other:
  "j \<noteq> i \<Longrightarrow>
   count_of cfg net clk (snd (getServerSessionCount cfg net clk i st)) j = count_of cfg net clk st j"
  by (rule count_of_view) (rule count_view_other)


lemma updateServerStatus_other:
  "j \<noteq> i \<Longrightarrow> getServer (updateServerStatus clk i ns d st) j = getServer st j"
  by (simp add: updateServerStatus_def cache_delete_def getServer_modify_other split: option.split)

lemma count_getServer_other:
  "j \<noteq> i \<Longrightarrow> getServer (snd (getServerSessionCount cfg net clk i st)) j = getServer st j"
  by (simp add: getServerSessionCount_def cache_get_def Let_def cache_set_def
      updateServerStatus_other getServer_modify_other
      split: option.split prod.split sum.split)

text \<open>The run of a count that is not served from the cache and whose probe is answered.\<close>

lemma count_probe_run:
  assumes miss: "cache_get (cacheKey i) clk st = (None, st1)"
      and known: "getServer st i = Some s"
      and ok: "axios default_validate (net (url s @ ''/sessions'')) = Inr resp"
  shows "fst (getServerSessionCount cfg net clk i st) = Inr (length (or_empty (r_data resp)))"
    and "\<exists>s'. getServer (snd (getServerSessionCount cfg net clk i st)) i = Some s'
           \<and> status s' = status s \<and> isActive s' = (status s \<noteq> UNHEALTHY \<and> status s \<noteq> FULL)
           \<and> url s' = url s"
    and "cache (snd (getServerSessionCount cfg net clk i st)) (cacheKey i) = None"
proof -
  let ?ss = "or_empty (r_data resp)"
  let ?st2 = "issue (Probe (url s @ ''/sessions'')) st1"
  let ?f = "\<lambda>x. x\<lparr>sessions := map id_or_sessionId ?ss\<rparr>"
  let ?st3 = "modify_server i ?f ?st2"
  let ?st4 = "?st3\<lparr>sessionMap := index_sessions i ?ss (sessionMap ?st3)\<rparr>"
  let ?st5 = "cache_set (cacheKey i) (length ?ss) (SESSION_CACHE_TTL cfg) clk ?st4"
  let ?d = "no_patch\<lparr>p_sessionCount := Some (length ?ss),
                       p_responseTime := Some (or_zero (r_duration resp))\<rparr>"
  have s1: "servers st1 = servers st"
    using cache_get_servers[of "cacheKey i" clk st] miss by simp
  have id: "server_id s = i" by (rule getServer_id[OF known])
  have k1: "getServer st1 i = Some s"
    unfolding getServer_same_servers[OF s1] by (rule known)
  have k2: "getServer ?st2 i = Some s"
    unfolding getServer_field_updates by (rule k1)
  have k3: "getServer ?st3 i = Some (?f s)"
    by (rule getServer_modify_same[OF k2]) (simp add: id)
  have k5: "getServer ?st5 i = Some (?f s)"
    unfolding cache_set_def getServer_field_updates by (rule k3)
  have lv: "live ?st5 s = ?f s"
    by (rule live_known) (simp only: id k5)
  have run: "getServerSessionCount cfg net clk i st
       = (Inr (length ?ss), updateServerStatus clk i (status (?f s)) ?d ?st5)"
    unfolding getServerSessionCount_def miss using ok lv
    by (simp add: k1 Let_def)
  show "fst (getServerSessionCount cfg net clk i st) = Inr (length (or_empty (r_data resp)))"
    unfolding run by simp
  have g: "getServer (updateServerStatus clk i (status (?f s)) ?d ?st5) i
             = Some (status_writes clk (status (?f s)) ?d (?f s))"
    by (rule updateServerStatus_same[OF k5])
  show "\<exists>s'. getServer (snd (getServerSessionCount cfg net clk i st)) i = Some s'
           \<and> status s' = status s \<and> isActive s' = (status s \<noteq> UNHEALTHY \<and> status s \<noteq> FULL)
           \<and> url s' = url s"
    unfolding run snd_conv g
    by (simp add: status_writes_def assign_patch_def no_patch_def Let_def)
  show "cache (snd (getServerSessionCount cfg net clk i st)) (cacheKey i) = None"
    unfolding run snd_conv using k5
    by (simp add: updateServerStatus_def cache_delete_def)
qed


lemma count_success_cases:
  assumes "count_of cfg net clk st i = Inr c"
  shows "(cache_get (cacheKey i) clk st = (Some c, st) \<and> snd (getServerSessionCount cfg net clk i st) = st)
       \<or> (\<exists>st1 s resp. cache_get (cacheKey i) clk st = (None, st1) \<and> getServer st i = Some s
             \<and> axios default_validate (net (url s @ ''/sessions'')) = Inr resp
             \<and> length (or_empty (r_data resp)) = c)"
proof (cases "cache_get (cacheKey i) clk st")
  case (Pair v st1)
  have s1: "servers st1 = servers st"
    using cache_get_servers[of "cacheKey i" clk st] Pair by simp
  show ?thesis
  proof (cases v)
    case (Some cached)
    then have "st1 = st" using Pair
      by (auto simp: cache_get_def split: option.splits prod.splits if_splits)
    then show ?thesis using assms Pair Some
      by (simp add: count_of_def getServerSessionCount_def)
  next
    case None
    show ?thesis
    proof (cases "getServer st i")
      case N: None
      then have "getServer st1 i = None" by (simp add: getServer_same_servers[OF s1])
      then show ?thesis using assms Pair None
        by (simp add: count_of_def getServerSessionCount_def)
    next
      case (Some s)
      then have k1: "getServer st1 i = Some s" by (simp add: getServer_same_servers[OF s1])
      show ?thesis
      proof (cases "axios default_validate (net (url s @ ''/sessions''))")
        case (Inl err)
        then show ?thesis using assms Pair None k1
          by (simp add: count_of_def getServerSessionCount_def Let_def)
      next
        case (Inr resp)
        have "fst (getServerSessionCount cfg net clk i st) = Inr (length (or_empty (r_data resp)))"
          using Pair None by (intro count_probe_run(1)[where net = net, OF _ Some Inr]) simp
        then have "length (or_empty (r_data resp)) = c" using assms by (simp add: count_of_def)
        then show ?thesis using Pair None Some Inr by blast
      qed
    qed
  qed
qed

lemma count_stable:
  assumes "count_of cfg net clk st i = Inr c"
  shows "count_of cfg net clk (snd (getServerSessionCount cfg net clk i st)) i = Inr c"
  using count_success_cases[OF assms]
proof (elim disjE exE conjE)
  assume "snd (getServerSessionCount cfg net clk i st) = st"
  then show ?thesis using assms by simp
next
  fix st1 s resp
  assume miss: "cache_get (cacheKey i) clk st = (None, st1)"
     and known: "getServer st i = Some s"
     and ok: "axios default_validate (net (url s @ ''/sessions'')) = Inr resp"
     and len: "length (or_empty (r_data resp)) = c"
  let ?st' = "snd (getServerSessionCount cfg net clk i st)"
  obtain s' where k: "getServer ?st' i = Some s'" and u: "url s' = url s"
    using count_probe_run(2)[where net = net and cfg = cfg, OF miss known ok] by blast
  have c0: "cache ?st' (cacheKey i) = None"
    by (rule count_probe_run(3)[where net = net, OF miss known ok])
  have miss': "cache_get (cacheKey i) clk ?st' = (None, ?st')"
    using c0 by (simp add: cache_get_def)
  have ok': "axios default_validate (net (url s' @ ''/sessions'')) = Inr resp"
    using ok u by simp
  show ?thesis
    unfolding count_of_def using count_probe_run(1)[where net = net and cfg = cfg, OF miss' k ok'] len by simp
qed

lemma count_keeps_active:
  assumes "count_of cfg net clk st i = Inr c"
      and "getServer st i = Some s" "status s = HEALTHY" "isActive s"
  shows "\<exists>s'. getServer (snd (getServerSessionCount cfg net clk i st)) i = Some s'
           \<and> status s' = HEALTHY \<and> isActive s'"
  using count_success_cases[OF assms(1)]
proof (elim disjE exE conjE)
  assume "snd (getServerSessionCount cfg net clk i st) = st"
  then show ?thesis using assms by simp
next
  fix st1 s0 resp
  assume miss: "cache_get (cacheKey i) clk st = (None, st1)"
     and known: "getServer st i = Some s0"
     and ok: "axios default_validate (net (url s0 @ ''/sessions'')) = Inr resp"
  have "s0 = s" using known assms(2) by simp
  then show ?thesis
    using count_probe_run(2)[where net = net and cfg = cfg, OF miss known ok] assms(3) by auto
qed


lemma selectable_step:
  assumes "selectable cfg net clk st j c"
  shows "selectable cfg net clk (snd (getServerSessionCount cfg net clk i st)) j c"
proof (cases "j = i")
  case True
  obtain s where k: "getServer st i = Some s" and h: "status s = HEALTHY" "isActive s"
    using assms True by (auto simp: selectable_def split: option.splits)
  have c: "count_of cfg net clk st i = Inr c" using assms True by (simp add: selectable_def)
  show ?thesis
    using count_stable[OF c] count_keeps_active[OF c k h] True
    by (auto simp: selectable_def)
next
  case False
  then show ?thesis
    using assms by (simp add: selectable_def count_of_other count_getServer_other)
qed

lemma selectable_countLoop:
  "selectable cfg net clk st j c \<Longrightarrow> selectable cfg net clk (snd (countLoop cfg net clk xs st)) j c"
proof (induction xs arbitrary: st)
  case Nil
  then show ?case by simp
next
  case (Cons h rest)
  obtain r st1 where g: "getServerSessionCount cfg net clk (server_id h) st = (r, st1)"
    by (cases "getServerSessionCount cfg net clk (server_id h) st")
  have "selectable cfg net clk st1 j c"
    using selectable_step[OF Cons.prems, of "server_id h"] g by simp
  then have "selectable cfg net clk (snd (countLoop cfg net clk rest st1)) j c"
    by (rule Cons.IH)
  then show ?case using g by (auto split: prod.split)
qed

lemma countLoop_other:
  "j \<notin> set (map server_id xs) \<Longrightarrow>
   getServer (snd (countLoop cfg net clk xs st)) j = getServer st j"
proof (induction xs arbitrary: st)
  case Nil
  then show ?case by simp
next
  case (Cons h rest)
  obtain r st1 where g: "getServerSessionCount cfg net clk (server_id h) st = (r, st1)"
    by (cases "getServerSessionCount cfg net clk (server_id h) st")
  have ne: "j \<noteq> server_id h" and nr: "j \<notin> set (map server_id rest)" using Cons.prems by auto
  have "getServer st1 j = getServer st j"
    using count_getServer_other[OF ne, of cfg net clk st] g by simp
  then show ?case using g Cons.IH[OF nr, of st1] by (auto split: prod.split)
qed

lemma countLoop_result:
  "distinct (map server_id xs) \<Longrightarrow>
   fst (countLoop cfg net clk xs st)
     = map (\<lambda>s. (s, as_count (count_of cfg net clk st (server_id s)))) xs"
proof (induction xs arbitrary: st)
  case Nil
  then show ?case by simp
next
  case (Cons h rest)
  obtain r st1 where g: "getServerSessionCount cfg net clk (server_id h) st = (r, st1)"
    by (cases "getServerSessionCount cfg net clk (server_id h) st")
  have d: "distinct (map server_id rest)" using Cons.prems by simp
  have same: "\<And>s. s \<in> set rest \<Longrightarrow>
      count_of cfg net clk st1 (server_id s) = count_of cfg net clk st (server_id s)"
  proof -
    fix s assume "s \<in> set rest"
    then have "server_id s \<noteq> server_id h" using Cons.prems by (force simp: image_iff)
    then show "count_of cfg net clk st1 (server_id s) = count_of cfg net clk st (server_id s)"
      using count_of_other[of "server_id s" "server_id h" cfg net clk st] g by simp
  qed
  have "fst (countLoop cfg net clk rest st1)
          = map (\<lambda>s. (s, as_count (count_of cfg net clk st (server_id s)))) rest"
    unfolding Cons.IH[OF d] using same by simp
  moreover have "as_count r = as_count (count_of cfg net clk st (server_id h))"
    using g by (simp add: count_of_def)
  ultimately show ?case using g
    by (auto simp: as_count_def split: prod.split)
qed

lemma countLoop_cursor [simp]:
  "roundRobinIndex (snd (countLoop cfg net clk xs st)) = roundRobinIndex st"
proof (induction xs arbitrary: st)
  case Nil
  then show ?case by simp
next
  case (Cons h rest)
  have "roundRobinIndex (snd (getServerSessionCount cfg net clk (server_id h) st)) = roundRobinIndex st"
    by (simp add: getServerSessionCount_def cache_get_def Let_def cache_set_def issue_def
        split: option.split prod.split sum.split)
  then show ?case using Cons.IH[of "snd (getServerSessionCount cfg net clk (server_id h) st)"]
    by (auto split: prod.split)
qed

lemma math_min_in: "xs \<noteq> [] \<Longrightarrow> math_min xs \<in> set xs"
proof -
  assume ne: "xs \<noteq> []"
  have "math_min xs = Min (set (\<infinity> # xs))"
    unfolding math_min_def by (simp only: Min.set_eq_fold)
  also have "\<dots> = min \<infinity> (Min (set xs))" using ne by simp
  also have "\<dots> = Min (set xs)" by (simp add: min_def)
  finally show ?thesis using ne by simp
qed

lemma math_min_replicate:
  "xs \<noteq> [] \<Longrightarrow> \<forall>x\<in>set xs. x = c \<Longrightarrow> math_min xs = c"
  using math_min_in[of xs] by auto


lemma active_distinct: "distinct_ids st \<Longrightarrow> distinct (map server_id (getActiveServers st))"
  by (simp add: distinct_ids_def getActiveServers_def getAllServers_def distinct_map_filter)

lemma as_count_less: "as_count r < enat m \<longleftrightarrow> (\<exists>c. r = Inr c \<and> c < m)"
  by (cases r) (simp_all add: as_count_def)

text \<open>What a selection returns, in terms of the counts in the state it starts from.\<close>

lemma select_outcome:
  assumes d: "distinct_ids st" and ne: "getActiveServers st \<noteq> []"
  shows "available cfg net clk st = [] \<Longrightarrow>
           selectOptimalServer cfg net clk st
             = (Inl ALL_FULL, snd (countLoop cfg net clk (getActiveServers st) st))"
    and "available cfg net clk st \<noteq> [] \<Longrightarrow> least_loaded cfg net clk st \<noteq> []"
    and "length (least_loaded cfg net clk st) > 1 \<Longrightarrow>
           selectOptimalServer cfg net clk st
             = (Inr (live (snd (countLoop cfg net clk (getActiveServers st) st)
                            \<lparr>roundRobinIndex := (roundRobinIndex st + 1) mod length (least_loaded cfg net clk st)\<rparr>)
                       (fst (least_loaded cfg net clk st
                               ! ((roundRobinIndex st + 1) mod length (least_loaded cfg net clk st))))),
                snd (countLoop cfg net clk (getActiveServers st) st)
                  \<lparr>roundRobinIndex := (roundRobinIndex st + 1) mod length (least_loaded cfg net clk st)\<rparr>)"
    and "length (least_loaded cfg net clk st) = 1 \<Longrightarrow>
           selectOptimalServer cfg net clk st
             = (Inr (live (snd (countLoop cfg net clk (getActiveServers st) st))
                       (fst (least_loaded cfg net clk st ! 0))),
                snd (countLoop cfg net clk (getActiveServers st) st))"
proof -
  let ?st1 = "snd (countLoop cfg net clk (getActiveServers st) st)"
  let ?avail = "available cfg net clk st"
  let ?least = "least_loaded cfg net clk st"
  obtain ys st1 where cl0: "countLoop cfg net clk (getActiveServers st) st = (ys, st1)"
    by (cases "countLoop cfg net clk (getActiveServers st) st")
  have ys: "ys = counted cfg net clk st"
    unfolding counted_def
    using countLoop_result[OF active_distinct[OF d], of cfg net clk st] cl0 by simp
  have st1: "?st1 = st1" using cl0 by simp
  have rr: "roundRobinIndex st1 = roundRobinIndex st"
    using countLoop_cursor[of cfg net clk "getActiveServers st" st] cl0 by simp
  have "selectOptimalServer cfg net clk st
      = (if length ?avail = 0 then (Inl ALL_FULL, st1)
         else if length ?least > 1
         then (Inr (live (st1\<lparr>roundRobinIndex := (roundRobinIndex st + 1) mod length ?least\<rparr>)
                      (fst (?least ! ((roundRobinIndex st + 1) mod length ?least)))),
               st1\<lparr>roundRobinIndex := (roundRobinIndex st + 1) mod length ?least\<rparr>)
         else (case ?least of [] \<Rightarrow> (Inl TypeError, st1)
               | x # xs \<Rightarrow> (Inr (live st1 (fst x)), st1)))"
    unfolding selectOptimalServer_def least_loaded_def available_def Let_def
    using ne by (simp add: cl0 ys rr)
  then have sel: "selectOptimalServer cfg net clk st
      = (if length ?avail = 0 then (Inl ALL_FULL, ?st1)
         else if length ?least > 1
         then (Inr (live (?st1\<lparr>roundRobinIndex := (roundRobinIndex st + 1) mod length ?least\<rparr>)
                      (fst (?least ! ((roundRobinIndex st + 1) mod length ?least)))),
               ?st1\<lparr>roundRobinIndex := (roundRobinIndex st + 1) mod length ?least\<rparr>)
         else (case ?least of [] \<Rightarrow> (Inl TypeError, ?st1)
               | x # xs \<Rightarrow> (Inr (live ?st1 (fst x)), ?st1)))"
    unfolding st1 .
  show "?avail = [] \<Longrightarrow> selectOptimalServer cfg net clk st = (Inl ALL_FULL, ?st1)"
    unfolding sel by simp
  show l: "?avail \<noteq> [] \<Longrightarrow> ?least \<noteq> []"
  proof -
    assume a: "?avail \<noteq> []"
    then have "math_min (map snd ?avail) \<in> set (map snd ?avail)" by (intro math_min_in) simp
    then obtain x where "x \<in> set ?avail" "snd x = math_min (map snd ?avail)" by auto
    then show "?least \<noteq> []" unfolding least_loaded_def filter_empty_conv by blast
  qed
  show "length ?least > 1 \<Longrightarrow>
           selectOptimalServer cfg net clk st
             = (Inr (live (?st1\<lparr>roundRobinIndex := (roundRobinIndex st + 1) mod length ?least\<rparr>)
                       (fst (?least ! ((roundRobinIndex st + 1) mod length ?least)))),
                ?st1\<lparr>roundRobinIndex := (roundRobinIndex st + 1) mod length ?least\<rparr>)"
  proof -
    assume g: "length ?least > 1"
    then have "?avail \<noteq> []" by (auto simp: least_loaded_def)
    then show ?thesis unfolding sel using g by simp
  qed
  show "length ?least = 1 \<Longrightarrow>
           selectOptimalServer cfg net clk st = (Inr (live ?st1 (fst (?least ! 0))), ?st1)"
  proof -
    assume g: "length ?least = 1"
    then have a: "?avail \<noteq> []" by (auto simp: least_loaded_def)
    obtain x where lx: "?least = [x]" using g by (cases ?least) auto
    show ?thesis unfolding sel using a lx by simp
  qed
qed

lemma select_returned:
  assumes d: "distinct_ids st" and r: "fst (selectOptimalServer cfg net clk st) = Inr srv"
  shows "\<exists>s\<in>set (getActiveServers st). \<exists>c.
           count_of cfg net clk st (server_id s) = Inr c \<and> c < MAX_SESSIONS_PER_SERVER cfg
         \<and> server_id srv = server_id s
         \<and> getServer (snd (selectOptimalServer cfg net clk st)) (server_id s) = Some srv
         \<and> status srv = HEALTHY \<and> isActive srv"
proof -
  define xs where "xs = counted cfg net clk st"
  define avail where "avail = available cfg net clk st"
  define least where "least = least_loaded cfg net clk st"
  define st1 where "st1 = snd (countLoop cfg net clk (getActiveServers st) st)"
  note out = select_outcome[OF d, of cfg net clk, folded xs_def avail_def least_def st1_def]
  have ne: "getActiveServers st \<noteq> []"
    using r by (auto simp: selectOptimalServer_def Let_def split: if_splits)
  have av: "avail \<noteq> []" using out(1)[OF ne] r by auto
  have ln: "least \<noteq> []" by (rule out(2)[OF ne av])
  obtain x st' where x: "x \<in> set least"
      and sel: "selectOptimalServer cfg net clk st = (Inr (live st' (fst x)), st')"
      and gs: "\<And>j. getServer st' j = getServer st1 j"
  proof (cases "length least > 1")
    case True
    let ?i = "(roundRobinIndex st + 1) mod length least"
    have "0 < length least" using True by linarith
    then have "?i < length least" by (rule mod_less_divisor)
    then have "least ! ?i \<in> set least" by simp
    then show ?thesis using out(3)[OF ne True] that[of "least ! ?i" "st1\<lparr>roundRobinIndex := ?i\<rparr>"]
      by simp
  next
    case False
    then have one: "length least = 1" using ln by (cases least) auto
    then have "least ! 0 \<in> set least" by simp
    then show ?thesis using out(4)[OF ne one] that[of "least ! 0" st1] by simp
  qed
  have "x \<in> set avail" using x by (simp add: least_def least_loaded_def avail_def)
  then have xin: "x \<in> set xs" and lt: "snd x < enat (MAX_SESSIONS_PER_SERVER cfg)"
    by (simp_all add: avail_def available_def xs_def)
  from xin obtain s where s: "s \<in> set (getActiveServers st)"
      and xe: "x = (s, as_count (count_of cfg net clk st (server_id s)))"
    by (auto simp: xs_def counted_def)
  from lt xe obtain c where c: "count_of cfg net clk st (server_id s) = Inr c"
      and cm: "c < MAX_SESSIONS_PER_SERVER cfg"
    by (auto simp: as_count_less)
  have sm: "s \<in> set (servers st)" and hs: "status s = HEALTHY" "isActive s"
    using s by (simp_all add: getActiveServers_def getAllServers_def)
  have k: "getServer st (server_id s) = Some s" by (rule getServer_member[OF d sm])
  have "selectable cfg net clk st (server_id s) c"
    unfolding selectable_def k using c hs by simp
  then have "selectable cfg net clk st1 (server_id s) c"
    unfolding st1_def by (rule selectable_countLoop)
  then obtain s' where k1: "getServer st1 (server_id s) = Some s'"
      and h1: "status s' = HEALTHY" "isActive s'"
    by (auto simp: selectable_def split: option.splits)
  have k': "getServer st' (server_id s) = Some s'" using gs k1 by simp
  have lv: "live st' s = s'" by (rule live_known[OF k'])
  have srv: "srv = s'" using r sel xe lv by simp
  have id: "server_id s' = server_id s" by (rule getServer_id[OF k'])
  show ?thesis
    using s c cm srv id k' h1 sel by auto
qed

lemma ex_init_distinct: "distinct_ids ex_init"
  by (simp add: distinct_ids_def ex_init_ids)

lemma ex_init_count1: "count_of default_config ex_net ex_clock ex_init ''server-1'' = Inr 0"
  by (simp add: count_of_def ex_init_def initializeServers_def eval_defs)


section \<open>Lemmas about the round-robin cursor\<close>

lemma live_id [simp]: "server_id (live st s) = server_id s"
  by (auto simp: live_def dest: getServer_id split: option.split)

lemma selectable_cursor [simp]:
  "selectable cfg net clk (st\<lparr>roundRobinIndex := r\<rparr>) i c = selectable cfg net clk st i c"
proof -
  have "count_view (st\<lparr>roundRobinIndex := r\<rparr>) i = count_view st i"
    by (simp add: count_view_def)
  then have "count_of cfg net clk (st\<lparr>roundRobinIndex := r\<rparr>) i = count_of cfg net clk st i"
    by (rule count_of_view)
  then show ?thesis by (simp add: selectable_def)
qed

lemma same_activity_filter:
  "list_all2 (\<lambda>s s'. server_id s' = server_id s \<and> is_active s' = is_active s) xs ys \<Longrightarrow>
   map server_id (filter is_active ys) = map server_id (filter is_active xs)"
  by (induction rule: list_all2_induct) auto

lemma getActiveServers_is_active: "getActiveServers st = filter is_active (servers st)"
  by (simp add: getActiveServers_def getAllServers_def is_active_def[abs_def])

lemma active_ids_preserved:
  assumes st: "steps_to st st'" and d: "distinct_ids st"
      and same: "\<And>s. s \<in> set (servers st) \<Longrightarrow>
                  \<exists>s'. getServer st' (server_id s) = Some s' \<and> is_active s' = is_active s"
  shows "map server_id (getActiveServers st') = map server_id (getActiveServers st)"
proof -
  have ids: "map server_id (servers st') = map server_id (servers st)"
    by (rule steps_to_ids[OF st])
  have d': "distinct_ids st'" using d ids by (simp add: distinct_ids_def)
  have len: "length (servers st') = length (servers st)"
    using ids by (metis length_map)
  have "list_all2 (\<lambda>s s'. server_id s' = server_id s \<and> is_active s' = is_active s)
          (servers st) (servers st')"
  proof (rule list_all2_all_nthI)
    show "length (servers st) = length (servers st')" using len by simp
  next
    fix k assume k: "k < length (servers st)"
    let ?s = "servers st ! k" and ?s' = "servers st' ! k"
    have idk: "server_id ?s' = server_id ?s"
      using ids k len by (metis nth_map)
    have "?s' \<in> set (servers st')" using k len by simp
    then have "getServer st' (server_id ?s') = Some ?s'" by (rule getServer_member[OF d'])
    then have g: "getServer st' (server_id ?s) = Some ?s'" using idk by simp
    have "?s \<in> set (servers st)" using k by simp
    from same[OF this] g have "is_active ?s' = is_active ?s" by auto
    then show "server_id ?s' = server_id ?s \<and> is_active ?s' = is_active ?s" using idk by simp
  qed
  then show ?thesis unfolding getActiveServers_is_active by (rule same_activity_filter)
qed


lemma uniform_lists:
  assumes u: "uniform cfg net clk c ids st" and cm: "c < MAX_SESSIONS_PER_SERVER cfg"
  shows "counted cfg net clk st = map (\<lambda>s. (s, enat c)) (getActiveServers st)"
    and "available cfg net clk st = counted cfg net clk st"
    and "ids \<noteq> [] \<Longrightarrow> least_loaded cfg net clk st = counted cfg net clk st"
    and "length (counted cfg net clk st) = length ids"
proof -
  have ids: "map server_id (getActiveServers st) = ids" using u by (simp add: uniform_def)
  have sel: "\<And>s. s \<in> set (getActiveServers st) \<Longrightarrow> count_of cfg net clk st (server_id s) = Inr c"
  proof -
    fix s assume "s \<in> set (getActiveServers st)"
    then have "server_id s \<in> set ids" using ids by (metis image_eqI set_map)
    then show "count_of cfg net clk st (server_id s) = Inr c"
      using u by (simp add: uniform_def list_all_iff selectable_def)
  qed
  show c1: "counted cfg net clk st = map (\<lambda>s. (s, enat c)) (getActiveServers st)"
    unfolding counted_def using sel by (simp add: as_count_def)
  show c2: "available cfg net clk st = counted cfg net clk st"
    unfolding available_def c1 using cm by (simp add: filter_map comp_def)
  show "length (counted cfg net clk st) = length ids"
    unfolding c1 using ids by (metis length_map)
  show "ids \<noteq> [] \<Longrightarrow> least_loaded cfg net clk st = counted cfg net clk st"
  proof -
    assume "ids \<noteq> []"
    then have ne: "getActiveServers st \<noteq> []" using ids by auto
    have "math_min (map snd (counted cfg net clk st)) = enat c"
      unfolding c1 using ne by (intro math_min_replicate) auto
    then show ?thesis
      unfolding least_loaded_def c2 by (simp add: c1 filter_map comp_def)
  qed
qed

lemma uniform_select:
  assumes u: "uniform cfg net clk c ids st" and ne: "ids \<noteq> []"
      and cm: "c < MAX_SESSIONS_PER_SERVER cfg"
  shows "\<exists>srv. fst (selectOptimalServer cfg net clk st) = Inr srv
            \<and> server_id srv = ids ! (if length ids > 1
                                        then (roundRobinIndex st + 1) mod length ids else 0)"
    and "uniform cfg net clk c ids (snd (selectOptimalServer cfg net clk st))"
    and "roundRobinIndex (snd (selectOptimalServer cfg net clk st))
           = (if length ids > 1 then (roundRobinIndex st + 1) mod length ids
              else roundRobinIndex st)"
proof -
  let ?act = "getActiveServers st"
  let ?st1 = "snd (countLoop cfg net clk ?act st)"
  let ?K = "length ids"
  have d: "distinct_ids st" and ids: "map server_id ?act = ids"
    and all: "list_all (\<lambda>i. selectable cfg net clk st i c) ids"
    using u by (simp_all add: uniform_def)
  have ane: "?act \<noteq> []" using ids ne by auto
  note lists = uniform_lists[OF u cm]
  have least: "least_loaded cfg net clk st = map (\<lambda>s. (s, enat c)) ?act"
    using lists(1) lists(3)[OF ne] by simp
  have llen: "length (least_loaded cfg net clk st) = ?K"
    using lists(3)[OF ne] lists(4) by simp
  have nth_id: "\<And>k. k < ?K \<Longrightarrow> server_id (fst (least_loaded cfg net clk st ! k)) = ids ! k"
  proof -
    fix k assume k: "k < ?K"
    then have ka: "k < length ?act" using ids by (metis length_map)
    then have "fst (least_loaded cfg net clk st ! k) = ?act ! k" by (simp add: least)
    then show "server_id (fst (least_loaded cfg net clk st ! k)) = ids ! k"
      using ids ka by (metis nth_map)
  qed
  note out = select_outcome[OF d ane, of cfg net clk]
  have post: "\<exists>r. snd (selectOptimalServer cfg net clk st) = ?st1\<lparr>roundRobinIndex := r\<rparr>"
  proof (cases "?K > 1")
    case True
    then show ?thesis using out(3) llen by auto
  next
    case False
    then have "?K = 1" using ne by (cases ids) auto
    then have "snd (selectOptimalServer cfg net clk st) = ?st1" using out(4) llen by simp
    then have "snd (selectOptimalServer cfg net clk st)
                 = ?st1\<lparr>roundRobinIndex := roundRobinIndex ?st1\<rparr>" by simp
    then show ?thesis by blast
  qed
  then obtain r where st': "snd (selectOptimalServer cfg net clk st) = ?st1\<lparr>roundRobinIndex := r\<rparr>"
    by blast
  show "\<exists>srv. fst (selectOptimalServer cfg net clk st) = Inr srv
            \<and> server_id srv = ids ! (if ?K > 1 then (roundRobinIndex st + 1) mod ?K else 0)"
  proof (cases "?K > 1")
    case True
    have "(roundRobinIndex st + 1) mod ?K < ?K" using True by (intro mod_less_divisor) linarith
    then show ?thesis using out(3) llen True nth_id by simp
  next
    case False
    then have one: "?K = 1" using ne by (cases ids) auto
    then show ?thesis using out(4) llen nth_id[of 0] by simp
  qed
  show "roundRobinIndex (snd (selectOptimalServer cfg net clk st))
           = (if ?K > 1 then (roundRobinIndex st + 1) mod ?K else roundRobinIndex st)"
  proof (cases "?K > 1")
    case True
    then show ?thesis using out(3) llen by simp
  next
    case False
    then have one: "?K = 1" using ne by (cases ids) auto
    then show ?thesis using out(4) llen by simp
  qed
  show "uniform cfg net clk c ids (snd (selectOptimalServer cfg net clk st))"
  proof -
    have steps: "steps_to st (snd (selectOptimalServer cfg net clk st))"
      by (rule selectOptimalServer_steps)
    have d': "distinct_ids (snd (selectOptimalServer cfg net clk st))"
      using d steps_to_ids[OF steps] by (simp add: distinct_ids_def)
    have sel1: "\<And>i. i \<in> set ids \<Longrightarrow> selectable cfg net clk (snd (selectOptimalServer cfg net clk st)) i c"
    proof -
      fix i assume "i \<in> set ids"
      then have "selectable cfg net clk st i c" using all by (simp add: list_all_iff)
      then have "selectable cfg net clk ?st1 i c" by (rule selectable_countLoop)
      then show "selectable cfg net clk (snd (selectOptimalServer cfg net clk st)) i c"
        unfolding st' by simp
    qed
    have same: "\<And>s. s \<in> set (servers st) \<Longrightarrow>
        \<exists>s'. getServer (snd (selectOptimalServer cfg net clk st)) (server_id s) = Some s'
             \<and> is_active s' = is_active s"
    proof -
      fix s assume sm: "s \<in> set (servers st)"
      have k: "getServer st (server_id s) = Some s" by (rule getServer_member[OF d sm])
      show "\<exists>s'. getServer (snd (selectOptimalServer cfg net clk st)) (server_id s) = Some s'
             \<and> is_active s' = is_active s"
      proof (cases "is_active s")
        case True
        then have "s \<in> set ?act" using sm by (simp add: getActiveServers_is_active)
        then have "server_id s \<in> set ids" using ids by (metis image_eqI set_map)
        from sel1[OF this] True show ?thesis
          by (auto simp: selectable_def is_active_def split: option.splits)
      next
        case False
        have "server_id s \<notin> set (map server_id ?act)"
        proof
          assume "server_id s \<in> set (map server_id ?act)"
          then obtain a where a: "a \<in> set ?act" and ia: "server_id a = server_id s" by auto
          have am: "a \<in> set (servers st)" and aa: "is_active a"
            using a by (simp_all add: getActiveServers_is_active)
          have "getServer st (server_id a) = Some a" by (rule getServer_member[OF d am])
          then have "a = s" using k ia by (metis option.inject)
          then show False using aa False by simp
        qed
        then have "getServer ?st1 (server_id s) = getServer st (server_id s)"
          by (rule countLoop_other)
        then show ?thesis unfolding st' using k by simp
      qed
    qed
    have "map server_id (getActiveServers (snd (selectOptimalServer cfg net clk st))) = ids"
      using active_ids_preserved[OF steps d same] ids by simp
    then show ?thesis using d' sel1 by (simp add: uniform_def list_all_iff)
  qed
qed


lemma select_times_ids:
  assumes ne: "length ids > 1" and cm: "c < MAX_SESSIONS_PER_SERVER cfg"
  shows "uniform cfg net clk c ids st \<Longrightarrow>
         \<exists>srvs. fst (select_times cfg net clk n st) = map Inr srvs
              \<and> map server_id srvs
                  = map (\<lambda>m. ids ! ((roundRobinIndex st + m) mod length ids)) [1..<Suc n]"
proof (induction n arbitrary: st)
  case 0
  then show ?case by simp
next
  case (Suc n)
  have ine: "ids \<noteq> []" using ne by auto
  let ?st1 = "snd (selectOptimalServer cfg net clk st)"
  let ?K = "length ids"
  obtain srv where r: "fst (selectOptimalServer cfg net clk st) = Inr srv"
      and id: "server_id srv = ids ! ((roundRobinIndex st + 1) mod ?K)"
    using uniform_select(1)[OF Suc.prems ine cm] ne by auto
  have u1: "uniform cfg net clk c ids ?st1" by (rule uniform_select(2)[OF Suc.prems ine cm])
  have rr1: "roundRobinIndex ?st1 = (roundRobinIndex st + 1) mod ?K"
    using uniform_select(3)[OF Suc.prems ine cm] ne by simp
  obtain srvs where rs: "fst (select_times cfg net clk n ?st1) = map Inr srvs"
      and ids_eq: "map server_id srvs
                 = map (\<lambda>m. ids ! ((roundRobinIndex ?st1 + m) mod ?K)) [1..<Suc n]"
    using Suc.IH[OF u1] by blast
  have shift: "\<And>m. (roundRobinIndex ?st1 + m) mod ?K = (roundRobinIndex st + Suc m) mod ?K"
    unfolding rr1 by (simp add: mod_add_left_eq)
  have idx: "[1..<Suc (Suc n)] = 1 # map Suc [1..<Suc n]"
    by (simp add: upt_conv_Cons map_Suc_upt del: upt_Suc)
  have "fst (select_times cfg net clk (Suc n) st) = map Inr (srv # srvs)"
    using r rs by (cases "selectOptimalServer cfg net clk st") (auto split: prod.split)
  moreover have "map server_id (srv # srvs)
      = map (\<lambda>m. ids ! ((roundRobinIndex st + m) mod ?K)) [1..<Suc (Suc n)]"
    unfolding idx using id ids_eq shift by (simp add: comp_def)
  ultimately show ?case by blast
qed

lemma mset_rotate1: "mset (rotate1 xs) = mset xs"
  by (cases xs) simp_all

lemma mset_rotate: "mset (rotate n xs) = mset xs"
  by (induction n) (simp_all add: mset_rotate1)

lemma rotation_indices:
  assumes "K > 0"
  shows "map (\<lambda>m. (r + m) mod K) [1..<Suc K] = rotate (Suc r) [0..<K]"
proof (rule nth_equalityI)
  show "length (map (\<lambda>m. (r + m) mod K) [1..<Suc K]) = length (rotate (Suc r) [0..<K])"
    by (simp del: upt_Suc)
next
  fix i assume "i < length (map (\<lambda>m. (r + m) mod K) [1..<Suc K])"
  then have i: "i < K" by (simp del: upt_Suc)
  have "rotate (Suc r) [0..<K] ! i = [0..<K] ! ((Suc r + i) mod K)"
    using nth_rotate[of i "[0..<K]" "Suc r"] i by (simp del: rotate_Suc)
  also have "\<dots> = (Suc r + i) mod K" using assms by simp
  finally have a: "rotate (Suc r) [0..<K] ! i = (Suc r + i) mod K" .
  have "map (\<lambda>m. (r + m) mod K) [1..<Suc K] ! i = (r + Suc i) mod K"
    using i by (simp add: nth_map_upt del: upt_Suc)
  then show "map (\<lambda>m. (r + m) mod K) [1..<Suc K] ! i = rotate (Suc r) [0..<K] ! i"
    using a by simp
qed

lemma rotation_of_list:
  assumes "ids \<noteq> []"
  shows "map (\<lambda>m. ids ! ((r + m) mod length ids)) [1..<Suc (length ids)] = rotate (Suc r) ids"
proof -
  have "map (\<lambda>m. ids ! ((r + m) mod length ids)) [1..<Suc (length ids)]
          = map ((!) ids) (map (\<lambda>m. (r + m) mod length ids) [1..<Suc (length ids)])"
    by (simp add: comp_def)
  also have "\<dots> = map ((!) ids) (rotate (Suc r) [0..<length ids])"
  proof -
    have "0 < length ids" using assms by simp
    then show ?thesis by (simp only: rotation_indices)
  qed
  also have "\<dots> = rotate (Suc r) (map ((!) ids) [0..<length ids])"
    by (simp only: rotate_map)
  also have "\<dots> = rotate (Suc r) ids" by (simp only: map_nth)
  finally show ?thesis .
qed

lemma healthy_are_active:
  "active_iff_healthy st \<Longrightarrow> map server_id (getActiveServers st) = healthy_ids st"
proof -
  assume a: "active_iff_healthy st"
  have "filter (\<lambda>s. status s = HEALTHY \<and> isActive s) (servers st)
          = filter (\<lambda>s. status s = HEALTHY) (servers st)"
    using a by (intro filter_cong) (auto simp: active_iff_healthy_def list_all_iff)
  then show ?thesis by (simp add: getActiveServers_def getAllServers_def healthy_ids_def)
qed

lemma ex_init_idle_counts:
  "count_of default_config ex_net_idle ex_clock ex_init ''server-1'' = Inr 0"
  "count_of default_config ex_net_idle ex_clock ex_init ''server-2'' = Inr 0"
  by (simp_all add: count_of_def ex_init_def initializeServers_def eval_defs ex_net_idle_def)

lemma ex_init_healthy: "healthy_ids ex_init = [''server-1'', ''server-2'']"
  by (simp add: healthy_ids_def ex_init_servers new_server_def)

lemma ex_init_active: "active_iff_healthy ex_init"
  by (simp add: active_iff_healthy_def ex_init_servers new_server_def)


section \<open>The active flag and the status\<close>

text \<open>
  The claim C7 as written fails for \<open>updateServerStatus\<close> with any status and any data: the
  function copies the data onto the server object after it has set the status and the
  active flag, and it activates the server for every status other than UNHEALTHY and
  FULL. From the initial registry, where every server is active and HEALTHY, an update to
  FULL whose data carries \<open>isActive: true\<close> leaves the server FULL and active; an update
  to HEALTHY whose data carries \<open>status: 'full'\<close> leaves it FULL and active; an update to
  the status \<open>'maintenance'\<close> leaves it active with that status.
\<close>

theorem active_flag_overwrite_counterexample:
  "active_iff_healthy ex_init
   \<and> status_of (updateServerStatus ex_clock ''server-1'' FULL ex_flag_patch ex_init) ''server-1''
       = Some FULL
   \<and> active_of (updateServerStatus ex_clock ''server-1'' FULL ex_flag_patch ex_init) ''server-1''
       = Some True
   \<and> \<not> active_iff_healthy (updateServerStatus ex_clock ''server-1'' FULL ex_flag_patch ex_init)
   \<and> status_of (updateServerStatus ex_clock ''server-1'' HEALTHY ex_status_patch ex_init) ''server-1''
       = Some FULL
   \<and> active_of (updateServerStatus ex_clock ''server-1'' HEALTHY ex_status_patch ex_init) ''server-1''
       = Some True
   \<and> \<not> active_iff_healthy (updateServerStatus ex_clock ''server-1'' HEALTHY ex_status_patch ex_init)
   \<and> status_of (updateServerStatus ex_clock ''server-1'' ''maintenance'' no_patch ex_init) ''server-1''
       = Some ''maintenance''
   \<and> active_of (updateServerStatus ex_clock ''server-1'' ''maintenance'' no_patch ex_init) ''server-1''
       = Some True
   \<and> \<not> active_iff_healthy (updateServerStatus ex_clock ''server-1'' ''maintenance'' no_patch ex_init)"
  by (simp add: active_iff_healthy_def status_of_def active_of_def updateServerStatus_def
        getServer_def ex_init_servers new_server_def modify_server_def cache_delete_def
        status_writes_def assign_patch_def no_patch_def ex_flag_patch_def ex_status_patch_def
        HEALTHY_def UNHEALTHY_def FULL_def Let_def)

text \<open>
  Claim C7, as the code has it. The initial registry has every server active exactly when
  its status is HEALTHY. In every state reached from it by operations whose status updates
  give one of the three status constants and data with neither a \<open>status\<close> nor an
  \<open>isActive\<close> key (the updates that the gateway itself performs are of this kind), every
  server is active exactly when its status is HEALTHY, and every status is one of the three
  constants. Every such operation (a status update, a reset, a session-count refresh, a
  deletion, a lookup, a health check, a selection, a forwarded request, a pairing)
  preserves these two properties together.
\<close>

theorem active_iff_healthy_invariant:
  "active_iff_healthy (initializeServers clk urls)
   \<and> (list_all keeps_flags ops
        \<longrightarrow> active_iff_healthy (run cfg clk urls ops) \<and> known_statuses (run cfg clk urls ops))
   \<and> (active_iff_healthy st \<and> known_statuses st \<and> keeps_flags op
        \<longrightarrow> active_iff_healthy (apply_op cfg st op) \<and> known_statuses (apply_op cfg st op))"
proof (intro conjI impI)
  show "active_iff_healthy (initializeServers clk urls)"
    by (simp add: initializeServers_active)
next
  assume "list_all keeps_flags ops"
  with initializeServers_active [of clk urls]
  have "active_iff_healthy (foldl (apply_op cfg) (initializeServers clk urls) ops)
        \<and> known_statuses (foldl (apply_op cfg) (initializeServers clk urls) ops)"
    by (rule foldl_active)
  then show "active_iff_healthy (run cfg clk urls ops)" and "known_statuses (run cfg clk urls ops)"
    by (simp_all add: run_def)
next
  assume a: "active_iff_healthy st \<and> known_statuses st \<and> keeps_flags op"
  then have "steps_to st (apply_op cfg st op)" by (simp add: apply_op_steps)
  then have "active_iff_healthy (apply_op cfg st op) \<and> known_statuses (apply_op cfg st op)"
    by (rule steps_to_active) (simp add: a)
  then show "active_iff_healthy (apply_op cfg st op)" and "known_statuses (apply_op cfg st op)"
    by simp_all
qed

theorem active_iff_healthy_invariant_witness:
  "list_all keeps_flags [OpUpdateStatus ex_clock ''server-1'' FULL no_patch]
   \<and> active_iff_healthy ex_init \<and> known_statuses ex_init
   \<and> run default_config ex_clock [''http://a'', ''http://b'']
         [OpUpdateStatus ex_clock ''server-1'' FULL no_patch]
       = apply_op default_config ex_init (OpUpdateStatus ex_clock ''server-1'' FULL no_patch)
   \<and> servers (apply_op default_config ex_init (OpUpdateStatus ex_clock ''server-1'' FULL no_patch)) \<noteq> []
   \<and> active_iff_healthy
        (apply_op default_config ex_init (OpUpdateStatus ex_clock ''server-1'' FULL no_patch))
   \<and> known_statuses
        (apply_op default_config ex_init (OpUpdateStatus ex_clock ''server-1'' FULL no_patch))
   \<and> status_of (apply_op default_config ex_init (OpUpdateStatus ex_clock ''server-1'' FULL no_patch))
        ''server-1'' = Some FULL
   \<and> active_of (apply_op default_config ex_init (OpUpdateStatus ex_clock ''server-1'' FULL no_patch))
        ''server-1'' = Some False"
  using active_iff_healthy_invariant
          [of ex_clock "[''http://a'', ''http://b'']"
              "[OpUpdateStatus ex_clock ''server-1'' FULL no_patch]" default_config ex_init
              "OpUpdateStatus ex_clock ''server-1'' FULL no_patch"]
  by (simp add: ex_init_def [symmetric] run_def status_of_def active_of_def updateServerStatus_def
        getServer_def known_statuses_def active_iff_healthy_def plain_patch_def
        ex_init_servers new_server_def modify_server_def cache_delete_def status_writes_def
        assign_patch_def no_patch_def Let_def)

text \<open>
  The condition on the statuses is needed for a single step: the session-count refresh
  passes the current status of the server back to \<open>updateServerStatus\<close>. A server that is
  inactive with the status \<open>'maintenance'\<close> agrees with the invariant, and a refresh of its
  session count makes it active.
\<close>

lemma refresh_of_unknown_status:
  "active_iff_healthy ex_retired \<and> \<not> known_statuses ex_retired
   \<and> status_of (snd (getServerSessionCount default_config ex_net ex_clock ''server-1'' ex_retired))
        ''server-1'' = Some ''maintenance''
   \<and> active_of (snd (getServerSessionCount default_config ex_net ex_clock ''server-1'' ex_retired))
        ''server-1'' = Some True
   \<and> \<not> active_iff_healthy
          (snd (getServerSessionCount default_config ex_net ex_clock ''server-1'' ex_retired))"
  by code_simp

section \<open>Status updates\<close>

text \<open>
  Claim C8, as the code has it. For a known server id, any status string and any data,
  \<open>updateServerStatus\<close> sets the status, sets \<open>lastChecked\<close> to the current time, increments
  \<open>healthChecks\<close>, increments \<open>failures\<close> whenever the new status is UNHEALTHY, whatever the
  status was before (for another new status \<open>failures\<close> is unchanged), then applies the
  data, and clears the session-count cache entry of the server. A key carried by the data
  overrides what has just been written: a \<open>lastChecked\<close> of the data replaces the current
  time, and so do a \<open>status\<close>, an \<open>isActive\<close> or a \<open>metadata\<close> of the data for the status,
  the active flag and the counters.
\<close>

theorem updateServerStatus_effect:
  assumes "getServer st serverId = Some s"
  shows "\<exists>s'. getServer (updateServerStatus clk serverId newStatus d st) serverId = Some s'
     \<and> status s' = (case p_status d of None \<Rightarrow> newStatus | Some v \<Rightarrow> v)
     \<and> isActive s' = (case p_isActive d of
                         None \<Rightarrow> newStatus \<noteq> UNHEALTHY \<and> newStatus \<noteq> FULL | Some v \<Rightarrow> v)
     \<and> lastChecked s' = (case p_lastChecked d of None \<Rightarrow> Some (iso clk) | Some v \<Rightarrow> Some v)
     \<and> healthChecks (metadata s')
         = (case p_metadata d of None \<Rightarrow> healthChecks (metadata s) + 1 | Some m \<Rightarrow> healthChecks m)
     \<and> failures (metadata s')
         = (case p_metadata d of
              None \<Rightarrow> (if newStatus = UNHEALTHY then failures (metadata s) + 1
                       else failures (metadata s))
            | Some m \<Rightarrow> failures m)
     \<and> deletedSessions (metadata s')
         = (case p_metadata d of None \<Rightarrow> deletedSessions (metadata s) | Some m \<Rightarrow> deletedSessions m)
     \<and> sessionCount s' = (case p_sessionCount d of None \<Rightarrow> sessionCount s | Some v \<Rightarrow> v)
     \<and> responseTime s' = (case p_responseTime d of None \<Rightarrow> responseTime s | Some v \<Rightarrow> v)
     \<and> error s' = (case p_error d of None \<Rightarrow> error s | Some v \<Rightarrow> Some v)
     \<and> sessionsList s' = (case p_sessionsList d of None \<Rightarrow> sessionsList s | Some v \<Rightarrow> Some v)
     \<and> sessions s' = (case p_sessions d of None \<Rightarrow> sessions s | Some v \<Rightarrow> v)
     \<and> cache (updateServerStatus clk serverId newStatus d st) (cacheKey serverId) = None"
proof -
  have id: "server_id s = serverId" using assms by (auto simp: getServer_def dest: find_id)
  have g: "getServer (updateServerStatus clk serverId newStatus d st) serverId
        = Some (status_writes clk newStatus d s)"
    using assms id
    by (simp add: updateServerStatus_def getServer_def cache_delete_def modify_server_def
        find_modify_entry_same)
  have c: "cache (updateServerStatus clk serverId newStatus d st) (cacheKey serverId) = None"
    by (simp add: updateServerStatus_def assms cache_delete_def modify_server_def)
  show ?thesis
    unfolding g c
    by (simp add: status_writes_def assign_patch_def Let_def split: option.split)
qed

theorem updateServerStatus_effect_witness:
  "getServer ex_init ''server-1'' = Some (new_server ex_clock ''http://a'' 0)
   \<and> status_of (updateServerStatus ex_clock ''server-1'' UNHEALTHY no_patch ex_init) ''server-1''
       = Some UNHEALTHY
   \<and> failures_of (updateServerStatus ex_clock ''server-1'' UNHEALTHY no_patch ex_init) ''server-1''
       = Some 1"
proof -
  have h: "getServer ex_init ''server-1'' = Some (new_server ex_clock ''http://a'' 0)"
    by (simp add: getServer_def ex_init_servers new_server_def)
  show ?thesis
    using h updateServerStatus_effect [OF h, of ex_clock UNHEALTHY no_patch]
    by (auto simp: status_of_def failures_of_def new_server_def no_patch_def)
qed

text \<open>
  The claim as written fails: a server that is already UNHEALTHY, with one failure
  counted, is updated to UNHEALTHY again, and its failure counter goes to two.
\<close>

theorem failures_on_repeat_counterexample:
  "status_of ex_unhealthy ''server-1'' = Some UNHEALTHY
   \<and> failures_of ex_unhealthy ''server-1'' = Some 1
   \<and> status_of (updateServerStatus ex_clock ''server-1'' UNHEALTHY no_patch ex_unhealthy) ''server-1''
       = Some UNHEALTHY
   \<and> failures_of (updateServerStatus ex_clock ''server-1'' UNHEALTHY no_patch ex_unhealthy) ''server-1''
       = Some 2"
  by (simp add: status_of_def failures_of_def ex_unhealthy_def updateServerStatus_def
        getServer_def ex_init_servers new_server_def modify_server_def cache_delete_def
        status_writes_def assign_patch_def no_patch_def Let_def)

section \<open>Unknown server ids\<close>

text \<open>
  Claim C10. For an id that is not in the registry, \<open>updateServerStatus\<close> and
  \<open>resetServer\<close> return without raising and leave the whole state (registry, session
  index, cache) as it was; the reset endpoint then still answers 200 with \<open>ok: true\<close>.
\<close>

theorem unknown_id_is_noop:
  assumes "serverId \<notin> set (map server_id (servers st))"
  shows "updateServerStatus clk serverId newStatus d st = st
       \<and> resetServer serverId st = st
       \<and> snd (api_resetServer serverId st) = st
       \<and> rep_status (fst (api_resetServer serverId st)) = 200
       \<and> get_prop (rep_body (fst (api_resetServer serverId st))) ''ok'' = Some (JBool True)"
proof -
  from assms have none: "getServer st serverId = None"
    by (simp add: getServer_None_iff)
  then show ?thesis
    by (simp add: updateServerStatus_def resetServer_def api_resetServer_def)
qed

theorem unknown_id_is_noop_witness:
  "''server-9'' \<notin> set (map server_id (servers ex_init))
   \<and> updateServerStatus ex_clock ''server-9'' UNHEALTHY no_patch ex_init = ex_init
   \<and> resetServer ''server-9'' ex_init = ex_init
   \<and> rep_status (fst (api_resetServer ''server-9'' ex_init)) = 200"
  using unknown_id_is_noop [of "''server-9''" ex_init ex_clock UNHEALTHY no_patch]
  by (simp add: ex_init_ids)

section \<open>Health probes\<close>

text \<open>
  Claim C2, as the code has it. A health probe of a registered server that is answered
  with HTTP 200 and the session list \<open>S\<close> sets the status to FULL when \<open>S\<close> has at least
  \<open>MAX_SESSIONS_PER_SERVER\<close> elements and to HEALTHY otherwise, sets \<open>sessionCount\<close> to the
  length of \<open>S\<close> and \<open>lastChecked\<close> to the time of the probe, counts one more health check,
  and does not write to the session index.
\<close>

theorem health_probe_effect:
  assumes "getServer st (server_id server) = Some s"
      and "net (url server @ ''/sessions'') = Answer 200 d dur"
  shows "\<exists>s'. getServer (checkServerHealth cfg net clk server st) (server_id server) = Some s'
     \<and> status s' = (if length (or_empty d) \<ge> MAX_SESSIONS_PER_SERVER cfg then FULL else HEALTHY)
     \<and> isActive s' = (length (or_empty d) < MAX_SESSIONS_PER_SERVER cfg)
     \<and> sessionCount s' = length (or_empty d)
     \<and> lastChecked s' = Some (iso clk)
     \<and> healthChecks (metadata s') = healthChecks (metadata s) + 1
     \<and> failures (metadata s') = failures (metadata s)
     \<and> sessionMap (checkServerHealth cfg net clk server st) = sessionMap st"
proof -
  let ?st1 = "issue (Probe (url server @ ''/sessions'')) st"
  have g: "getServer ?st1 (server_id server) = Some s"
    using assms(1) by (simp add: getServer_def)
  show ?thesis
    using assms(2) updateServerStatus_same[OF g]
    by (simp add: checkServerHealth_def axios_def default_validate_def Let_def
        status_writes_def assign_patch_def no_patch_def issue_def)
qed

theorem health_probe_effect_witness:
  "getServer ex_init ''server-2'' = Some (new_server ex_clock ''http://b'' 1)
   \<and> ex_net ''http://b/sessions'' = Answer 200 (Some [ex_session]) None
   \<and> status_of (checkServerHealth default_config ex_net ex_clock (new_server ex_clock ''http://b'' 1) ex_init) ''server-2'' = Some HEALTHY
   \<and> sessionCount_of (checkServerHealth default_config ex_net ex_clock (new_server ex_clock ''http://b'' 1) ex_init) ''server-2'' = Some 1"
proof -
  have a: "getServer ex_init (server_id (new_server ex_clock ''http://b'' 1)) = Some (new_server ex_clock ''http://b'' 1)"
    by (simp add: getServer_def ex_init_servers new_server_def)
  have b: "ex_net (url (new_server ex_clock ''http://b'' 1) @ ''/sessions'') = Answer 200 (Some [ex_session]) None"
    by (simp add: ex_net_def new_server_def)
  show ?thesis
    using a b health_probe_effect [where st = ex_init and server = "new_server ex_clock ''http://b'' 1"
        and net = ex_net and cfg = default_config and clk = ex_clock, OF a b]
    by (auto simp: status_of_def sessionCount_of_def new_server_def default_config_def or_empty_def)
qed

text \<open>
  The claim as written fails: the second server is probed, the answer lists the session
  \<open>sess-abc\<close>, and afterwards the \<open>sessions\<close> of the server are still empty and the session
  index has no entry for \<open>sess-abc\<close>.
\<close>

theorem health_probe_counterexample:
  "ex_net ''http://b/sessions'' = Answer 200 (Some [ex_session]) None
   \<and> id_or_sessionId ex_session = Some ''sess-abc''
   \<and> sessions_of (checkServerHealth default_config ex_net ex_clock (new_server ex_clock ''http://b'' 1) ex_init) ''server-2'' = Some []
   \<and> sessionMap (checkServerHealth default_config ex_net ex_clock (new_server ex_clock ''http://b'' 1) ex_init) ''sess-abc'' = None"
  by (simp add: checkServerHealth_def ex_net_def new_server_def axios_def default_validate_def
      issue_def updateServerStatus_def getServer_def ex_init_def initializeServers_def
      cache_delete_def modify_server_def status_writes_def assign_patch_def no_patch_def
      sessions_of_def id_or_sessionId_def ex_session_def default_config_def or_empty_def or_zero_def Let_def)

section \<open>Deleting a session\<close>

text \<open>
  Claim C4, as the code has it. For a known server \<open>b\<close> and a session \<open>sid\<close>: when the
  logout call succeeds, \<open>deleteSessionFromServer\<close> counts one more deleted session, removes
  \<open>sid\<close> from the sessions of \<open>b\<close> and from the session index, decrements the session count
  of \<open>b\<close> (not below 0) and clears the cache entry of \<open>b\<close>. When the backend answers 404,
  only the index entry and the entry in the sessions of \<open>b\<close> are removed (the counters, the
  session count and the cache stay as they were) and the 404 is thrown on. Hence a
  second deletion that the backend answers with 404 after a first successful one
  throws that 404, and the index has no entry for \<open>sid\<close>.
\<close>

theorem deleteSession_effect:
  assumes "getServer st b = Some srv"
  shows "(net (url srv @ ''/logout/'' @ sid) = Answer code d dur \<and> 200 \<le> code \<and> code < 300 \<longrightarrow>
            fst (deleteSessionFromServer net b sid st)
              = Inr \<lparr>dr_success = True, dr_serverId = b, dr_sessionId = sid, dr_response = d,
                     dr_newSessionCount = sessionCount srv - 1\<rparr>
          \<and> getServer (snd (deleteSessionFromServer net b sid st)) b
              = Some (srv\<lparr>metadata := (metadata srv)
                               \<lparr>deletedSessions := deletedSessions (metadata srv) + 1\<rparr>,
                         sessions := filter (\<lambda>x. x \<noteq> Some sid) (sessions srv),
                         sessionCount := sessionCount srv - 1\<rparr>)
          \<and> sessionMap (snd (deleteSessionFromServer net b sid st)) sid = None
          \<and> cache (snd (deleteSessionFromServer net b sid st)) (cacheKey b) = None)
       \<and> (net (url srv @ ''/logout/'' @ sid) = Answer 404 d dur \<longrightarrow>
            (\<exists>e. fst (deleteSessionFromServer net b sid st) = Inl e
                 \<and> map_option r_status (e_response e) = Some 404)
          \<and> getServer (snd (deleteSessionFromServer net b sid st)) b
              = Some (srv\<lparr>sessions := filter (\<lambda>x. x \<noteq> Some sid) (sessions srv)\<rparr>)
          \<and> sessionMap (snd (deleteSessionFromServer net b sid st)) sid = None
          \<and> cache (snd (deleteSessionFromServer net b sid st)) = cache st)
       \<and> (net (url srv @ ''/logout/'' @ sid) = Answer code d dur \<and> 200 \<le> code \<and> code < 300
          \<and> net' (url srv @ ''/logout/'' @ sid) = Answer 404 d' dur' \<longrightarrow>
            (\<exists>e. fst (deleteSessionFromServer net' b sid (snd (deleteSessionFromServer net b sid st)))
                   = Inl e \<and> map_option r_status (e_response e) = Some 404)
          \<and> sessionMap (snd (deleteSessionFromServer net' b sid
                                 (snd (deleteSessionFromServer net b sid st)))) sid = None)"
proof (intro conjI impI)
  assume a: "net (url srv @ ''/logout/'' @ sid) = Answer code d dur \<and> 200 \<le> code \<and> code < 300"
  show "fst (deleteSessionFromServer net b sid st)
              = Inr \<lparr>dr_success = True, dr_serverId = b, dr_sessionId = sid, dr_response = d,
                     dr_newSessionCount = sessionCount srv - 1\<rparr>"
    using delete_success(1)[where net = net and sid = sid and code = code and d = d and dur = dur, OF assms] a by blast
  show "getServer (snd (deleteSessionFromServer net b sid st)) b
              = Some (srv\<lparr>metadata := (metadata srv)
                               \<lparr>deletedSessions := deletedSessions (metadata srv) + 1\<rparr>,
                         sessions := filter (\<lambda>x. x \<noteq> Some sid) (sessions srv),
                         sessionCount := sessionCount srv - 1\<rparr>)"
    using delete_success(2)[where net = net and sid = sid and code = code and d = d and dur = dur, OF assms] a by blast
  show "sessionMap (snd (deleteSessionFromServer net b sid st)) sid = None"
    using delete_success(3)[where net = net and sid = sid and code = code and d = d and dur = dur, OF assms] a by simp
  show "cache (snd (deleteSessionFromServer net b sid st)) (cacheKey b) = None"
    using delete_success(4)[where net = net and sid = sid and code = code and d = d and dur = dur, OF assms] a by simp
next
  assume a: "net (url srv @ ''/logout/'' @ sid) = Answer 404 d dur"
  show "\<exists>e. fst (deleteSessionFromServer net b sid st) = Inl e
                 \<and> map_option r_status (e_response e) = Some 404"
    using delete_404(1)[where net = net and sid = sid and d = d and dur = dur, OF assms a] by auto
  show "getServer (snd (deleteSessionFromServer net b sid st)) b
              = Some (srv\<lparr>sessions := filter (\<lambda>x. x \<noteq> Some sid) (sessions srv)\<rparr>)"
    using delete_404(2)[where net = net and sid = sid and d = d and dur = dur, OF assms a] .
  show "sessionMap (snd (deleteSessionFromServer net b sid st)) sid = None"
    using delete_404(3)[where net = net and sid = sid and d = d and dur = dur, OF assms a] by simp
  show "cache (snd (deleteSessionFromServer net b sid st)) = cache st"
    using delete_404(4)[where net = net and sid = sid and d = d and dur = dur, OF assms a] .
next
  assume a: "net (url srv @ ''/logout/'' @ sid) = Answer code d dur \<and> 200 \<le> code \<and> code < 300
          \<and> net' (url srv @ ''/logout/'' @ sid) = Answer 404 d' dur'"
  let ?srv1 = "srv\<lparr>metadata := (metadata srv)\<lparr>deletedSessions := deletedSessions (metadata srv) + 1\<rparr>,
                    sessions := filter (\<lambda>x. x \<noteq> Some sid) (sessions srv),
                    sessionCount := sessionCount srv - 1\<rparr>"
  have g: "getServer (snd (deleteSessionFromServer net b sid st)) b = Some ?srv1"
    using delete_success(2)[where net = net and sid = sid and code = code and d = d and dur = dur, OF assms] a by blast
  have n': "net' (url ?srv1 @ ''/logout/'' @ sid) = Answer 404 d' dur'" using a by simp
  show "\<exists>e. fst (deleteSessionFromServer net' b sid (snd (deleteSessionFromServer net b sid st)))
                   = Inl e \<and> map_option r_status (e_response e) = Some 404"
    using delete_404(1)[where net = net' and sid = sid and d = d' and dur = dur', OF g n'] by auto
  show "sessionMap (snd (deleteSessionFromServer net' b sid
                                 (snd (deleteSessionFromServer net b sid st)))) sid = None"
    using delete_404(3)[where net = net' and sid = sid and d = d' and dur = dur', OF g n'] by simp
qed

theorem deleteSession_effect_witness:
  "getServer ex_counted ''server-2'' = Some ex_server2
   \<and> ex_logout_ok (url ex_server2 @ ''/logout/'' @ ''sess-abc'') = Answer 200 (JObj [(''ok'', JBool True)]) None
   \<and> ex_logout_404 (url ex_server2 @ ''/logout/'' @ ''sess-abc'')
       = Answer 404 (JObj [(''error'', JStr ''Session not found'')]) None
   \<and> sessionCount_of (snd (deleteSessionFromServer ex_logout_ok ''server-2'' ''sess-abc'' ex_counted))
        ''server-2'' = Some 0
   \<and> sessionMap (snd (deleteSessionFromServer ex_logout_404 ''server-2'' ''sess-abc''
        (snd (deleteSessionFromServer ex_logout_ok ''server-2'' ''sess-abc'' ex_counted)))) ''sess-abc'' = None"
  using deleteSession_effect [where st = ex_counted and b = "''server-2''" and srv = ex_server2
          and net = ex_logout_ok and net' = ex_logout_404 and sid = "''sess-abc''" and code = 200
          and d = "JObj [(''ok'', JBool True)]" and dur = None
          and d' = "JObj [(''error'', JStr ''Session not found'')]" and dur' = None,
          OF ex_counted_server2]
  by (simp add: ex_counted_server2 ex_logout_ok_def ex_logout_404_def sessionCount_of_def ex_server2_def)

text \<open>
  The claim as written fails: the second server holds one session; the backend answers the
  logout with 404; the session count stays 1 and no deleted session is counted.
\<close>

theorem delete_404_counterexample:
  "sessionCount_of ex_counted ''server-2'' = Some 1
   \<and> deleted_of ex_counted ''server-2'' = Some 0
   \<and> sessionCount_of (snd (deleteSessionFromServer ex_logout_404 ''server-2'' ''sess-abc'' ex_counted))
        ''server-2'' = Some 1
   \<and> deleted_of (snd (deleteSessionFromServer ex_logout_404 ''server-2'' ''sess-abc'' ex_counted))
        ''server-2'' = Some 0"
  using delete_404(2) [where st = ex_counted and b = "''server-2''" and srv = ex_server2
          and net = ex_logout_404 and sid = "''sess-abc''"
          and d = "JObj [(''error'', JStr ''Session not found'')]" and dur = None,
          OF ex_counted_server2]
  by (simp add: ex_counted_server2 ex_logout_404_def sessionCount_of_def deleted_of_def ex_server2_def)


section \<open>The reply to a pairing request\<close>

text \<open>
  Claim C3, as the code has it. When the forwarding of a pairing request returns an
  upstream response, that response is the status and the body of an upstream answer, and
  the reply of the gateway is: the upstream body with the upstream status, unchanged, when
  the body is truthy and has no truthy \<open>error\<close> property (whatever the status, and also for
  \<open>ok: false\<close>); the gateway's own envelope with the upstream \<open>error\<close> value, under the
  upstream status when that is at least 400 and under 400 otherwise, when the body has a
  truthy \<open>error\<close> property; and the gateway's own 502 when the body is empty.
\<close>

theorem pair_reply:
  assumes "selectOptimalServer cfg (w_net w0) (w_clock w0) st = (Inr srv, st1)"
      and "forwardRequest cfg ws req srv 0 st1 = (Inr resp, st2)"
  shows "fst (handlePair cfg w0 ws w1 req st)
           = (if \<not> truthy (f_data resp)
              then \<lparr>rep_status = 502,
                    rep_body = createResponse False JNull
                                 (JStr ''Backend server returned empty response'') (iso (w_clock w1))\<rparr>
              else if truthy_prop (f_data resp) ''error''
              then \<lparr>rep_status = (if f_status resp \<ge> 400 then f_status resp else 400),
                    rep_body = createResponse False JNull
                                 (the (get_prop (f_data resp) ''error'')) (iso (w_clock w1))\<rparr>
              else \<lparr>rep_status = f_status resp, rep_body = f_data resp\<rparr>)
       \<and> (\<exists>k srv' dur. w_fwd (ws k) (forward_config cfg (w_clock (ws k)) req srv')
                          = Answer (f_status resp) (f_data resp) dur)"
proof -
  have "fst (handlePair cfg w0 ws w1 req st) = fst (pair_respond cfg w1 srv resp st2)"
    using assms by (simp add: handlePair_def)
  moreover have "fst (pair_respond cfg w1 srv resp st2)
           = (if \<not> truthy (f_data resp)
              then \<lparr>rep_status = 502,
                    rep_body = createResponse False JNull
                                 (JStr ''Backend server returned empty response'') (iso (w_clock w1))\<rparr>
              else if truthy_prop (f_data resp) ''error''
              then \<lparr>rep_status = (if f_status resp \<ge> 400 then f_status resp else 400),
                    rep_body = createResponse False JNull
                                 (the (get_prop (f_data resp) ''error'')) (iso (w_clock w1))\<rparr>
              else \<lparr>rep_status = f_status resp, rep_body = f_data resp\<rparr>)"
    by (auto simp: pair_respond_def Let_def truthy_prop_def split: option.splits)
  moreover have "\<exists>k srv' dur. w_fwd (ws k) (forward_config cfg (w_clock (ws k)) req srv')
                          = Answer (f_status resp) (f_data resp) dur"
    using forwardRequest_verbatim[OF assms(2)] by blast
  ultimately show ?thesis by simp
qed

theorem pair_reply_witness:
  "selectOptimalServer default_config (w_net ex_world_ok) (w_clock ex_world_ok) ex_init
     = (Inr ex_selected, ex_after_select)
   \<and> forwardRequest default_config ex_worlds_ok ex_request ex_selected 0 ex_after_select
     = (Inr \<lparr>f_data = ex_ok_body, f_status = 200\<rparr>,
        issue (Forward ''http://a/pair/33612345678/'') ex_after_select)
   \<and> fst (handlePair default_config ex_world_ok ex_worlds_ok ex_world_ok ex_request ex_init)
     = \<lparr>rep_status = 200, rep_body = ex_ok_body\<rparr>"
proof -
  have a: "selectOptimalServer default_config (w_net ex_world_ok) (w_clock ex_world_ok) ex_init
     = (Inr ex_selected, ex_after_select)"
    using ex_select by (simp add: ex_world_ok_def)
  show ?thesis
    using a ex_forward_ok
      pair_reply [where cfg = default_config and ?w0.0 = ex_world_ok and ws = ex_worlds_ok
        and ?w1.0 = ex_world_ok and req = ex_request and st = ex_init, OF a ex_forward_ok]
    by (simp add: ex_ok_body_def truthy_prop_def)
qed

text \<open>
  The claim as written fails: the upstream answers 200 with a body that has an \<open>error\<close>
  property; the gateway replies 400 with its own envelope.
\<close>

theorem pair_error_body_counterexample:
  "w_fwd ex_world_error
     (forward_config default_config ex_clock ex_request ex_selected) = Answer 200 ex_error_body None
   \<and> ex_error_body = JObj [(''error'', JStr ''Invalid number'')]
   \<and> fst (handlePair default_config ex_world_error ex_worlds_error ex_world_error ex_request ex_init)
       = \<lparr>rep_status = 400,
           rep_body = JObj [(''ok'', JBool False), (''timestamp'', JStr (iso ex_clock)),
                            (''error'', JStr ''Invalid number'')]\<rparr>"
  using ex_select ex_forward_error
  by (simp add: handlePair_def ex_world_error_def pair_respond_def ex_error_body_def
      truthy_prop_def createResponse_def)


section \<open>The retry bound\<close>

text \<open>
  Claim C9. One top-level call \<open>forwardRequest(req, server)\<close> issues at least one and at
  most \<open>MAX_RETRIES + 1\<close> forwarded requests, the first attempt and the retries after
  re-selection together; a call entered with \<open>retries\<close> attempts behind it issues at most
  \<open>MAX_RETRIES - retries + 1\<close>. (The function is total: its termination is proved with the
  measure \<open>MAX_RETRIES - retries\<close>. The \<open>/sessions\<close> probes of a re-selection are not
  forwarded requests.)
\<close>

theorem retry_bound:
  "forward_attempts (snd (forwardRequest cfg ws req server 0 st))
     \<le> forward_attempts st + MAX_RETRIES cfg + 1
   \<and> forward_attempts st < forward_attempts (snd (forwardRequest cfg ws req server 0 st))
   \<and> forward_attempts (snd (forwardRequest cfg ws req server retries st))
     \<le> forward_attempts st + (MAX_RETRIES cfg - retries) + 1"
  using forward_attempts_bounds[of st cfg ws req server 0]
        forward_attempts_bounds[of st cfg ws req server retries]
  by simp

text \<open>
  The bound is attained: with the default \<open>MAX_RETRIES = 3\<close> and a connection that is reset
  at every attempt, four requests are forwarded.
\<close>

lemma retry_bound_attained:
  "forward_attempts
     (snd (forwardRequest default_config ex_worlds_reset ex_request ex_server1 0 ex_init)) = 4"
  by code_simp

section \<open>Looking a session up\<close>

text \<open>
  Claim C5, as the code has it. \<open>findSessionServer\<close> first consults the session index and,
  when the hint names a known server, returns it with \<open>cached = true\<close> and changes
  nothing. Otherwise it walks the servers once, in registry order, and for each server
  first looks at its in-memory sessions and, when the session is not there, probes that
  server's \<open>/sessions\<close> before it goes on to the next server: the result is the first server
  in registry order that has the session in memory (\<open>cached = true\<close>) or whose probe lists
  it (\<open>cached = false\<close>), and it is absent when there is none. The servers probed are those
  before the match (and the match itself when it is found by its probe); each probe that
  is answered replaces the sessions of its server, and the index receives the entry of the
  session that was looked up, and no other.
\<close>

theorem find_resolution:
  assumes "distinct_ids st"
  shows "(index_hint st sid = Some srv \<longrightarrow>
            findSessionServer net sid st
              = (Some \<lparr>fr_server = srv, fr_cached = True, fr_found = True,
                       fr_sessionDetails = None\<rparr>, st))
       \<and> (index_hint st sid = None \<longrightarrow>
            found_id (fst (findSessionServer net sid st))
              = map_option server_id (find (hit net sid) (servers st))
          \<and> found_cached (fst (findSessionServer net sid st))
              = map_option (memory_hit sid) (find (hit net sid) (servers st))
          \<and> sessionMap (snd (findSessionServer net sid st))
              = (case found_id (fst (findSessionServer net sid st)) of
                   None \<Rightarrow> sessionMap st
                 | Some i \<Rightarrow> (sessionMap st)(sid \<mapsto> i))
          \<and> trace (snd (findSessionServer net sid st))
              = trace st @ map probe_call (probed net sid (servers st))
          \<and> (\<forall>s\<in>set (probed net sid (servers st)). \<forall>resp.
                axios default_validate (net (url s @ ''/sessions'')) = Inr resp \<longrightarrow>
                sessions_of (snd (findSessionServer net sid st)) (server_id s)
                  = Some (map id_or_sessionId (or_empty (r_data resp)))))"
proof (intro conjI impI)
  assume "index_hint st sid = Some srv"
  then show "findSessionServer net sid st
              = (Some \<lparr>fr_server = srv, fr_cached = True, fr_found = True,
                       fr_sessionDetails = None\<rparr>, st)"
    by (simp add: findSessionServer_def)
next
  assume h: "index_hint st sid = None"
  have d: "distinct (map server_id (servers st))" using assms by (simp add: distinct_ids_def)
  have p: "\<forall>s\<in>set (servers st). getServer st (server_id s) = Some s"
    using assms by (blast intro: getServer_member)
  have eq: "findSessionServer net sid st = findLoop net sid (servers st) st"
    using h by (simp add: findSessionServer_def getAllServers_def)
  note spec = findLoop_spec[OF d p, of net sid]
  show "found_id (fst (findSessionServer net sid st))
              = map_option server_id (find (hit net sid) (servers st))"
    unfolding eq using spec by blast
  show "found_cached (fst (findSessionServer net sid st))
              = map_option (memory_hit sid) (find (hit net sid) (servers st))"
    unfolding eq using spec by blast
  show "sessionMap (snd (findSessionServer net sid st))
              = (case found_id (fst (findSessionServer net sid st)) of
                   None \<Rightarrow> sessionMap st
                 | Some i \<Rightarrow> (sessionMap st)(sid \<mapsto> i))"
    unfolding eq by (rule findLoop_index)
  show "trace (snd (findSessionServer net sid st))
              = trace st @ map probe_call (probed net sid (servers st))"
    unfolding eq using spec by blast
  show "\<forall>s\<in>set (probed net sid (servers st)). \<forall>resp.
                axios default_validate (net (url s @ ''/sessions'')) = Inr resp \<longrightarrow>
                sessions_of (snd (findSessionServer net sid st)) (server_id s)
                  = Some (map id_or_sessionId (or_empty (r_data resp)))"
    unfolding eq using findLoop_refresh[OF d p] by blast
qed

theorem find_resolution_witness:
  "distinct_ids ex_found_other
   \<and> index_hint ex_found_other ''sess-abc'' = None
   \<and> probed ex_net_both ''sess-abc'' (servers ex_found_other) = [ex_server1]
   \<and> found_id (fst (findSessionServer ex_net_both ''sess-abc'' ex_found_other)) = Some ''server-1''
   \<and> found_cached (fst (findSessionServer ex_net_both ''sess-abc'' ex_found_other)) = Some False
   \<and> sessions_of (snd (findSessionServer ex_net_both ''sess-abc'' ex_found_other)) ''server-1''
       = Some [Some ''sess-abc'']
   \<and> distinct_ids ex_counted
   \<and> index_hint ex_counted ''sess-abc'' = Some ex_server2
   \<and> found_cached (fst (findSessionServer ex_net ''sess-abc'' ex_counted)) = Some True"
proof -
  have d1: "distinct_ids ex_found_other"
    by (simp add: distinct_ids_def ex_found_other_eval ex_server1_def ex_server2_two_def new_server_def)
  have d2: "distinct_ids ex_counted"
    by (simp add: distinct_ids_def ex_counted_servers ex_server1_def ex_server2_def new_server_def)
  have h1: "index_hint ex_found_other ''sess-abc'' = None"
    by (simp add: index_hint_def ex_found_other_eval)
  have ax: "axios default_validate (ex_net_both (url ex_server1 @ ''/sessions''))
              = Inr \<lparr>r_status = 200, r_data = Some [ex_session], r_duration = None\<rparr>"
    by (simp add: axios_def default_validate_def ex_net_both_def ex_server1_def new_server_def)
  have pr: "probed ex_net_both ''sess-abc'' (servers ex_found_other) = [ex_server1]"
    using ax
    by (simp add: ex_found_other_eval memory_hit_def probe_hit_def ex_server1_def new_server_def or_empty_def matches_session_def ex_session_def)
  have hit1: "hit ex_net_both ''sess-abc'' ex_server1"
    using ax
    by (simp add: hit_def probe_hit_def or_empty_def matches_session_def ex_session_def)
  have mh: "\<not> memory_hit ''sess-abc'' ex_server1"
    by (simp add: memory_hit_def ex_server1_def new_server_def)
  have sid1: "server_id ex_server1 = ''server-1''"
    by (simp add: ex_server1_def new_server_def)
  show ?thesis
    using d1 d2 h1 pr ex_counted_hint hit1 mh ax
      find_resolution [OF d1, of "''sess-abc''" ex_server2 ex_net_both]
      find_resolution [OF d2, of "''sess-abc''" ex_server2 ex_net]
    by (simp add: ex_found_other_eval found_cached_def sid1 or_empty_def id_or_sessionId_def
        ex_session_def)
qed

text \<open>
  The claim as written fails: \<open>sess-abc\<close> is in the memory of the second server and not in
  the index, and the first backend lists it too. The code probes the first server before it
  looks at the memory of the second and returns the first server with \<open>cached = false\<close>;
  three stages one after the other return the second server with \<open>cached = true\<close>.
\<close>

theorem find_order_counterexample:
  "index_hint ex_found_other ''sess-abc'' = None
   \<and> sessions_of ex_found_other ''server-1'' = Some []
   \<and> sessions_of ex_found_other ''server-2'' = Some [Some ''sess-abc'', Some ''sess-other'']
   \<and> found_id (fst (findSessionServer ex_net_both ''sess-abc'' ex_found_other)) = Some ''server-1''
   \<and> found_cached (fst (findSessionServer ex_net_both ''sess-abc'' ex_found_other)) = Some False
   \<and> found_id (fst (findSessionServer_staged ex_net_both ''sess-abc'' ex_found_other)) = Some ''server-2''
   \<and> found_cached (fst (findSessionServer_staged ex_net_both ''sess-abc'' ex_found_other)) = Some True"
  by (simp add: findSessionServer_def findSessionServer_staged_def index_hint_def
      ex_found_other_eval getAllServers_def live_def getServer_def sessions_of_def ex_net_both_def axios_def default_validate_def issue_def or_empty_def
      modify_server_def id_or_sessionId_def ex_session_def ex_session_other_def
      matches_session_def ex_server1_def ex_server2_two_def new_server_def memory_hit_def
      found_id_def found_cached_def Let_def)


section \<open>Selection\<close>

text \<open>
  Claim C1. In a registry with distinct ids: when the active flags agree with the
  statuses and some server is HEALTHY with a session count, as \<open>getServerSessionCount\<close>
  returns it, below \<open>MAX_SESSIONS_PER_SERVER\<close>, then \<open>selectOptimalServer\<close> returns a server
  that is HEALTHY and whose count is below the maximum. And whatever the state, a server
  that \<open>selectOptimalServer\<close> returns is HEALTHY and active when it is returned, and was
  HEALTHY when the selection began: never FULL, never UNHEALTHY.
\<close>

theorem selection_preference:
  assumes "distinct_ids st"
  shows "(active_iff_healthy st
          \<and> (\<exists>s\<in>set (servers st). status s = HEALTHY
                \<and> (\<exists>c. count_of cfg net clk st (server_id s) = Inr c
                        \<and> c < MAX_SESSIONS_PER_SERVER cfg)) \<longrightarrow>
           (\<exists>srv c. fst (selectOptimalServer cfg net clk st) = Inr srv
                  \<and> status srv = HEALTHY
                  \<and> count_of cfg net clk st (server_id srv) = Inr c
                  \<and> c < MAX_SESSIONS_PER_SERVER cfg))
       \<and> (\<forall>srv. fst (selectOptimalServer cfg net clk st) = Inr srv \<longrightarrow>
             status srv = HEALTHY \<and> isActive srv
           \<and> status_of st (server_id srv) = Some HEALTHY
           \<and> getServer (snd (selectOptimalServer cfg net clk st)) (server_id srv) = Some srv)"
proof (intro conjI impI allI)
  fix srv
  assume r: "fst (selectOptimalServer cfg net clk st) = Inr srv"
  from select_returned[OF assms r] obtain s where
      s: "s \<in> set (getActiveServers st)" and id: "server_id srv = server_id s"
      and g: "getServer (snd (selectOptimalServer cfg net clk st)) (server_id s) = Some srv"
      and h: "status srv = HEALTHY" "isActive srv"
    by blast
  have sm: "s \<in> set (servers st)" and hs: "status s = HEALTHY"
    using s by (simp_all add: getActiveServers_def getAllServers_def)
  have k: "getServer st (server_id s) = Some s" by (rule getServer_member[OF assms sm])
  show "status srv = HEALTHY" by (rule h(1))
  show "isActive srv" by (rule h(2))
  show "status_of st (server_id srv) = Some HEALTHY"
    unfolding status_of_def id k using hs by simp
  show "getServer (snd (selectOptimalServer cfg net clk st)) (server_id srv) = Some srv"
    unfolding id by (rule g)
next
  assume a: "active_iff_healthy st
          \<and> (\<exists>s\<in>set (servers st). status s = HEALTHY
                \<and> (\<exists>c. count_of cfg net clk st (server_id s) = Inr c
                        \<and> c < MAX_SESSIONS_PER_SERVER cfg))"
  then obtain s c where sm: "s \<in> set (servers st)" and hs: "status s = HEALTHY"
      and c: "count_of cfg net clk st (server_id s) = Inr c" and cm: "c < MAX_SESSIONS_PER_SERVER cfg"
    by blast
  have act: "isActive s"
    using a sm hs by (auto simp: active_iff_healthy_def list_all_iff)
  have sa: "s \<in> set (getActiveServers st)"
    using sm hs act by (simp add: getActiveServers_def getAllServers_def)
  then have ne: "getActiveServers st \<noteq> []" by auto
  define xs where "xs = counted cfg net clk st"
  define avail where "avail = available cfg net clk st"
  define least where "least = least_loaded cfg net clk st"
  define st1 where "st1 = snd (countLoop cfg net clk (getActiveServers st) st)"
  note out = select_outcome[OF assms ne, of cfg net clk, folded xs_def avail_def least_def st1_def]
  have "(s, enat c) \<in> set xs" using sa c by (force simp: xs_def counted_def as_count_def)
  then have "(s, enat c) \<in> set avail" using cm by (simp add: avail_def available_def xs_def)
  then have av: "avail \<noteq> []" by auto
  have ln: "least \<noteq> []" by (rule out(2)[OF av])
  have "\<exists>srv. fst (selectOptimalServer cfg net clk st) = Inr srv"
  proof (cases "length least > 1")
    case True
    then show ?thesis using out(3) by simp
  next
    case False
    then have "length least = 1" using ln by (cases least) auto
    then show ?thesis using out(4) by simp
  qed
  then obtain srv where r: "fst (selectOptimalServer cfg net clk st) = Inr srv" by blast
  from select_returned[OF assms r]
  show "\<exists>srv c. fst (selectOptimalServer cfg net clk st) = Inr srv
                  \<and> status srv = HEALTHY
                  \<and> count_of cfg net clk st (server_id srv) = Inr c
                  \<and> c < MAX_SESSIONS_PER_SERVER cfg"
    using r by auto
qed

theorem selection_preference_witness:
  "distinct_ids ex_init
   \<and> active_iff_healthy ex_init
   \<and> status_of ex_init ''server-1'' = Some HEALTHY
   \<and> count_of default_config ex_net ex_clock ex_init ''server-1'' = Inr 0
   \<and> fst (selectOptimalServer default_config ex_net ex_clock ex_init) = Inr ex_selected
   \<and> status ex_selected = HEALTHY"
  using selection_preference [OF ex_init_distinct, of default_config ex_net ex_clock]
        ex_init_distinct ex_init_count1 ex_select
  by (simp add: active_iff_healthy_def ex_init_servers new_server_def status_of_def getServer_def
      ex_selected_def)

section \<open>Round-robin fairness\<close>

text \<open>
  Claim C6. In a registry with distinct ids whose active flags agree with the statuses,
  let exactly \<open>K \<ge> 1\<close> servers be HEALTHY, each with the same session count \<open>c\<close> below
  \<open>MAX_SESSIONS_PER_SERVER\<close>, and let nothing but the selections themselves change the
  state (the same world for every call). Then \<open>K\<close> selections one after the other all
  return a server, each of the \<open>K\<close> servers exactly once: the ids returned are the list of
  the healthy ids rotated by the cursor plus one, whatever value the cursor starts from.
\<close>

theorem round_robin_fair:
  assumes "distinct_ids st" and "active_iff_healthy st"
      and "K = length (healthy_ids st)" and "1 \<le> K"
      and "\<forall>s\<in>set (servers st). status s = HEALTHY \<longrightarrow>
             count_of cfg net clk st (server_id s) = Inr c"
      and "c < MAX_SESSIONS_PER_SERVER cfg"
  shows "\<exists>srvs. fst (select_times cfg net clk K st) = map Inr srvs
            \<and> map server_id srvs = rotate (roundRobinIndex st + 1) (healthy_ids st)
            \<and> mset (map server_id srvs) = mset (healthy_ids st)
            \<and> distinct (map server_id srvs)"
proof -
  let ?ids = "healthy_ids st"
  have act: "map server_id (getActiveServers st) = ?ids" by (rule healthy_are_active[OF assms(2)])
  have ne: "?ids \<noteq> []" using assms(3,4) by auto
  have dis: "distinct ?ids"
    using assms(1) by (simp add: healthy_ids_def distinct_ids_def distinct_map_filter)
  have sel: "list_all (\<lambda>i. selectable cfg net clk st i c) ?ids"
    unfolding list_all_iff
  proof
    fix i assume "i \<in> set ?ids"
    then obtain s where sm: "s \<in> set (servers st)" and hs: "status s = HEALTHY"
        and i: "i = server_id s"
      by (auto simp: healthy_ids_def)
    have k: "getServer st (server_id s) = Some s" by (rule getServer_member[OF assms(1) sm])
    have ia: "isActive s" using assms(2) sm hs by (auto simp: active_iff_healthy_def list_all_iff)
    have "count_of cfg net clk st (server_id s) = Inr c" using assms(5) sm hs by blast
    then show "selectable cfg net clk st i c"
      unfolding selectable_def i k using hs ia by simp
  qed
  have u: "uniform cfg net clk c ?ids st"
    using assms(1) act sel by (simp add: uniform_def)
  have "\<exists>srvs. fst (select_times cfg net clk K st) = map Inr srvs
            \<and> map server_id srvs = rotate (roundRobinIndex st + 1) ?ids"
  proof (cases "K > 1")
    case True
    then have l: "length ?ids > 1" using assms(3) by simp
    from select_times_ids[OF l assms(6) u, of K]
    obtain srvs where a: "fst (select_times cfg net clk K st) = map Inr srvs"
        and b: "map server_id srvs
                  = map (\<lambda>m. ?ids ! ((roundRobinIndex st + m) mod length ?ids)) [1..<Suc K]"
      by blast
    have "map server_id srvs = rotate (Suc (roundRobinIndex st)) ?ids"
      unfolding b assms(3) by (rule rotation_of_list[OF ne])
    then show ?thesis using a by auto
  next
    case False
    then have one: "K = 1" using assms(4) by simp
    then obtain x where x: "?ids = [x]" using assms(3) by (cases ?ids) auto
    obtain srv where r: "fst (selectOptimalServer cfg net clk st) = Inr srv"
        and id: "server_id srv = ?ids ! 0"
      using uniform_select(1)[OF u ne assms(6)] x by auto
    have "fst (select_times cfg net clk K st) = map Inr [srv]"
      unfolding one using r
      by (cases "selectOptimalServer cfg net clk st") (simp add: numeral_eq_Suc)
    moreover have "map server_id [srv] = rotate (roundRobinIndex st + 1) ?ids"
      using id x by simp
    ultimately show ?thesis by blast
  qed
  then obtain srvs where a: "fst (select_times cfg net clk K st) = map Inr srvs"
      and b: "map server_id srvs = rotate (roundRobinIndex st + 1) ?ids"
    by blast
  have "mset (map server_id srvs) = mset ?ids" unfolding b by (rule mset_rotate)
  moreover have "distinct (map server_id srvs)" unfolding b using dis by simp
  ultimately show ?thesis using a b by blast
qed

theorem round_robin_fair_witness:
  "distinct_ids ex_init
   \<and> active_iff_healthy ex_init
   \<and> healthy_ids ex_init = [''server-1'', ''server-2'']
   \<and> count_of default_config ex_net_idle ex_clock ex_init ''server-1'' = Inr 0
   \<and> count_of default_config ex_net_idle ex_clock ex_init ''server-2'' = Inr 0
   \<and> roundRobinIndex ex_init = 0
   \<and> selected_ids (fst (select_times default_config ex_net_idle ex_clock 2 ex_init))
       = [Inr ''server-2'', Inr ''server-1'']"
proof -
  have k: "2 = length (healthy_ids ex_init)" by (simp add: ex_init_healthy)
  have one: "(1::nat) \<le> 2" by simp
  have counts: "\<forall>s\<in>set (servers ex_init). status s = HEALTHY \<longrightarrow>
                  count_of default_config ex_net_idle ex_clock ex_init (server_id s) = Inr 0"
    by (simp add: ex_init_servers new_server_def ex_init_idle_counts)
  have cm: "0 < MAX_SESSIONS_PER_SERVER default_config" by (simp add: default_config_def)
  have rr: "roundRobinIndex ex_init = 0" by (simp add: ex_init_def initializeServers_def)
  from round_robin_fair [OF ex_init_distinct ex_init_active k one counts cm]
  obtain srvs where a: "fst (select_times default_config ex_net_idle ex_clock 2 ex_init) = map Inr srvs"
      and b: "map server_id srvs = rotate (roundRobinIndex ex_init + 1) (healthy_ids ex_init)"
    by blast
  have "selected_ids (map Inr srvs) = map Inr (map server_id srvs)"
    by (simp add: selected_ids_def)
  then have "selected_ids (fst (select_times default_config ex_net_idle ex_clock 2 ex_init))
       = [Inr ''server-2'', Inr ''server-1'']"
    unfolding a b rr ex_init_healthy by simp
  then show ?thesis
    using ex_init_distinct ex_init_active ex_init_healthy ex_init_idle_counts rr by simp
qed

end
